theory Spec2Isabelle
  imports Complex_Main "HOL-Library.Char_ord" "HOL-Library.List_Lexorder"
begin

section \<open>The tagging script and its host\<close>

text \<open>
  The script \<^verbatim>\<open>Tag All+.pushbutton/script.py\<close> drives a CAD host: it reads categories,
  elements, views and tags from the host's document, asks the user through dialogs, and
  creates and deletes tags inside a transaction. The functions of the script are embedded
  one by one, under their own names. The host, the dialog toolkit and the configuration
  module are not part of the script: what they answer is the record \<open>Host\<close>, a parameter
  of every function, and what the script does to them is the record \<open>state\<close>.
\<close>

subsection \<open>Exceptions\<close>

text \<open>
  Python separates \<^verbatim>\<open>SystemExit\<close> from the classes below \<^verbatim>\<open>Exception\<close>: a handler
  \<^verbatim>\<open>except Exception\<close> does not catch \<^verbatim>\<open>SystemExit\<close>. The script raises
  \<^verbatim>\<open>SystemExit\<close> itself (a cancelled selection dialog) and catches it at top level;
  every other exception carries its message.
\<close>

datatype exc = SystemExit | Exception string

text \<open>What a dialog hands back to the script.\<close>

datatype pyval = PyNone | PyBool bool | PyStr string

subsection \<open>The host's objects\<close>

datatype ViewType = FloorPlan | CeilingPlan | Elevation | Section | ThreeD | DraftingView | Schedule

datatype TagMode = TM_ADDBY_CATEGORY | TM_ADDBY_MULTICATEGORY | TM_ADDBY_MATERIAL

datatype TagOrientation = Horizontal | Vertical

text \<open>
  A coordinate is a double of the host: a finite value, an infinity, or not a number.
  The script never computes on coordinates itself; it calls the operators of the host's
  class \<^verbatim>\<open>XYZ\<close>, whose rounding and overflow are the host's (see \<open>Host\<close> below).
\<close>

datatype double = Finite real | PlusInfinity | MinusInfinity | NaN

record XYZ =
  xyz_X :: double
  xyz_Y :: double
  xyz_Z :: double

record BoundingBoxXYZ =
  bbox_Min :: XYZ
  bbox_Max :: XYZ

record Category =
  cat_Name :: string
  cat_Id :: int
  AllowsBoundParameters :: bool

text \<open>
  An element: \<open>elem_Id\<close> is \<^verbatim>\<open>element.Id.IntegerValue\<close>; \<open>elem_Category\<close> is
  \<^verbatim>\<open>element.Category\<close>, which the host leaves empty for some elements (reading
  \<^verbatim>\<open>.Id\<close> or \<^verbatim>\<open>.Name\<close> of it then raises); \<open>get_BoundingBox\<close> is what
  \<^verbatim>\<open>element.get_BoundingBox(None)\<close> does: it raises with a message, or returns a box or
  nothing.
\<close>

record Element =
  elem_Id :: int
  elem_Category :: "Category option"
  get_BoundingBox :: "string + BoundingBoxXYZ option"

record View =
  view_Id :: int
  view_Name :: string
  view_Type :: ViewType
  IsTemplate :: bool

text \<open>
  A tag of the document. The two readers of its tagged elements are the two shapes of the
  host's interface: \<open>GetTaggedLocalElement\<close> (one element or none) and
  \<open>GetTaggedLocalElements\<close> (a collection); either may raise.
\<close>

record IndependentTag =
  tag_Id :: int
  OwnerViewId :: int
  GetTaggedLocalElement :: "string + int option"
  GetTaggedLocalElements :: "string + int list"
  HasLeader :: bool
  tag_Mode :: TagMode
  tag_Orientation :: TagOrientation
  TagHeadPosition :: XYZ
  TagText :: string

subsection \<open>What the script does: the trace\<close>

datatype log_line =
    RunningOnVersion int
  | ErrorProcessingTag string
  | ErrorProcessingElement int string
  | SelectedCategories "string list"
  | CollectedElements string "int list"
  | SelectedViews "string list"
  | ErrorIn string string
  | GeneralError string

text \<open>
  Every call that leaves the script is an event, in the order of the calls: a printed
  line, a load of the toggle settings, a progress update, the prompt for a category
  without tag family, a call of \<^verbatim>\<open>IndependentTag.Create\<close> with its arguments, a call of
  \<^verbatim>\<open>doc.Delete\<close>, a selection dialog, and the three calls on the transaction.
\<close>

datatype event =
    Print log_line
  | LoadToggleSettings
  | UpdateProgress nat nat
  | Alert Category
  | Create int Element bool TagMode TagOrientation XYZ
  | Delete int
  | SelectFromList string "string list"
  | TxStart
  | TxCommit
  | TxRollBack

subsection \<open>The host as a parameter\<close>

text \<open>
  \<open>VersionNumber\<close> is the outcome of \<^verbatim>\<open>int(app.VersionNumber)\<close>. \<open>ElementTypes\<close>
  lists the category identifier of every loaded element type. \<open>view_elements\<close> is the
  collection of the non-type elements of a view. The configuration module answers
  \<open>load_configs\<close> and \<open>load_toggle_settings\<close>; the dialogs answer \<open>alert\<close> and
  \<open>SelectFromList_show\<close>. Answers that may change during a run (the user's, the
  configuration's) depend on the events so far. The prompt is called with
  \<^verbatim>\<open>exitscript=True\<close>: when the user goes on it returns a value; when the user declines
  it ends the script, that is, the call raises \<^verbatim>\<open>SystemExit\<close>; like every call of the
  host it may also fail with an exception. \<open>create_fails\<close> and
  \<open>delete_fails\<close> say when the host refuses a creation or a deletion, with the message;
  \<open>created_TagText\<close> is the label the host computes for a new tag; \<open>isspace\<close> is the
  runtime's whitespace test, used by \<^verbatim>\<open>str.strip\<close>. \<open>XYZ_add\<close>, \<open>XYZ_sub\<close> and
  \<open>XYZ_rmul\<close> are the operators \<^verbatim>\<open>a + b\<close>, \<^verbatim>\<open>a - b\<close> and \<^verbatim>\<open>k * a\<close> of the host's
  points, in the host's double arithmetic.
\<close>

record Host =
  VersionNumber :: "string + int"
  ElementTypes :: "int list"
  view_elements :: "int \<Rightarrow> Element list"
  Categories :: "Category list"
  Categories_get_Item :: "string \<Rightarrow> string + Category"
  Elements :: "Element list"
  Views :: "View list"
  load_configs :: "string + string list"
  load_toggle_settings :: "event list \<Rightarrow> string + (string \<rightharpoonup> bool)"
  alert :: "event list \<Rightarrow> string \<Rightarrow> exc + pyval"
  SelectFromList_show :: "event list \<Rightarrow> string \<Rightarrow> string list \<Rightarrow> string + string list option"
  create_fails :: "int \<Rightarrow> Element \<Rightarrow> string option"
  created_TagText :: "int \<Rightarrow> Element \<Rightarrow> string"
  delete_fails :: "int \<Rightarrow> string option"
  isspace :: "char \<Rightarrow> bool"
  XYZ_add :: "XYZ \<Rightarrow> XYZ \<Rightarrow> XYZ"
  XYZ_sub :: "XYZ \<Rightarrow> XYZ \<Rightarrow> XYZ"
  XYZ_rmul :: "double \<Rightarrow> XYZ \<Rightarrow> XYZ"

subsection \<open>The state of a run\<close>

datatype tx_status = NotStarted | Started "IndependentTag list" | Committed | RolledBack

text \<open>
  \<open>doc_tags\<close> are the tags of the document, in all views; \<open>next_id\<close> is the identifier
  the host gives to the next created element; \<open>tx\<close> is the transaction, which remembers
  the tags at its start; \<open>ignored_tag_types\<close> and \<open>element_cache\<close> are the script's two
  module-level variables.
\<close>

record state =
  doc_tags :: "IndependentTag list"
  next_id :: int
  tx :: tx_status
  ignored_tag_types :: "int set"
  element_cache :: "int \<rightharpoonup> Element list"
  events :: "event list"

definition emit :: "event \<Rightarrow> state \<Rightarrow> state" where
  "emit ev s = s\<lparr>events := events s @ [ev]\<rparr>"

text \<open>The events a computation adds, between the state before and the state after.\<close>

definition emitted :: "state \<Rightarrow> state \<Rightarrow> event list" where
  "emitted s s' = drop (length (events s)) (events s')"

subsection \<open>Host calls that change the document\<close>

definition IndependentTag_Create ::
  "Host \<Rightarrow> int \<Rightarrow> Element \<Rightarrow> bool \<Rightarrow> TagMode \<Rightarrow> TagOrientation \<Rightarrow> XYZ \<Rightarrow> state
    \<Rightarrow> (exc + IndependentTag) \<times> state" where
  "IndependentTag_Create h vid element leader tmode orient point s =
    (let s1 = emit (Create vid element leader tmode orient point) s in
     case create_fails h vid element of
       Some m \<Rightarrow> (Inl (Exception m), s1)
     | None \<Rightarrow>
        (let tag = \<lparr>tag_Id = next_id s1, OwnerViewId = vid,
                    GetTaggedLocalElement = Inr (Some (elem_Id element)),
                    GetTaggedLocalElements = Inr [elem_Id element],
                    HasLeader = leader, tag_Mode = tmode, tag_Orientation = orient,
                    TagHeadPosition = point, TagText = created_TagText h vid element\<rparr>
         in (Inr tag, s1\<lparr>doc_tags := doc_tags s1 @ [tag], next_id := next_id s1 + 1\<rparr>)))"

definition doc_Delete :: "Host \<Rightarrow> int \<Rightarrow> state \<Rightarrow> (exc + unit) \<times> state" where
  "doc_Delete h i s =
    (let s1 = emit (Delete i) s in
     case delete_fails h i of
       Some m \<Rightarrow> (Inl (Exception m), s1)
     | None \<Rightarrow> (Inr (), s1\<lparr>doc_tags := filter (\<lambda>t. tag_Id t \<noteq> i) (doc_tags s1)\<rparr>))"

definition Transaction_Start :: "state \<Rightarrow> state" where
  "Transaction_Start s = emit TxStart (s\<lparr>tx := Started (doc_tags s)\<rparr>)"

definition Transaction_Commit :: "state \<Rightarrow> state" where
  "Transaction_Commit s = emit TxCommit (s\<lparr>tx := Committed\<rparr>)"

definition Transaction_RollBack :: "state \<Rightarrow> state" where
  "Transaction_RollBack s =
    emit TxRollBack
      (case tx s of
         Started snapshot \<Rightarrow> s\<lparr>doc_tags := snapshot, tx := RolledBack\<rparr>
       | _ \<Rightarrow> s\<lparr>tx := RolledBack\<rparr>)"

subsection \<open>The helper functions of the script (lines 18 to 40)\<close>

definition is_tag_type_loaded :: "Host \<Rightarrow> int \<Rightarrow> bool" where
  "is_tag_type_loaded h built_in_category =
    (filter (\<lambda>c. c = built_in_category) (ElementTypes h) \<noteq> [])"

definition is_element_visible_in_view :: "Host \<Rightarrow> View \<Rightarrow> Element \<Rightarrow> exc + bool" where
  "is_element_visible_in_view h view element =
    (case elem_Category element of
       None \<Rightarrow> Inl (Exception ''AttributeError'')
     | Some c \<Rightarrow>
        Inr (list_ex (\<lambda>e. elem_Id e = elem_Id element)
              (filter (\<lambda>e. map_option cat_Id (elem_Category e) = Some (cat_Id c))
                 (view_elements h (view_Id view)))))"

text \<open>
  Lines 31 to 36. The center is \<^verbatim>\<open>bbox.Min + 0.5 * (bbox.Max - bbox.Min)\<close>, computed with
  the host's operators.
\<close>

definition get_projected_center_point :: "Host \<Rightarrow> Element \<Rightarrow> exc + XYZ option" where
  "get_projected_center_point h element =
    (case get_BoundingBox element of
       Inl m \<Rightarrow> Inl (Exception m)
     | Inr None \<Rightarrow> Inr None
     | Inr (Some bbox) \<Rightarrow>
        Inr (Some (XYZ_add h (bbox_Min bbox)
                     (XYZ_rmul h (Finite 0.5) (XYZ_sub h (bbox_Max bbox) (bbox_Min bbox))))))"

definition get_revit_version :: "Host \<Rightarrow> exc + int" where
  "get_revit_version h = (case VersionNumber h of Inl m \<Rightarrow> Inl (Exception m) | Inr v \<Rightarrow> Inr v)"

text \<open>\<^verbatim>\<open>s.strip()\<close>: the string without its leading and trailing whitespace.\<close>

definition strip :: "Host \<Rightarrow> string \<Rightarrow> string" where
  "strip h s = rev (dropWhile (isspace h) (rev (dropWhile (isspace h) s)))"

subsection \<open>The tagger (lines 42 to 100)\<close>

text \<open>
  Lines 49 to 66: the identifiers of the elements that the existing tags of the view
  cover. A tag whose reader raises is logged and skipped.
\<close>

fun already_tagged :: "int \<Rightarrow> IndependentTag list \<Rightarrow> int set \<Rightarrow> state \<Rightarrow> int set \<times> state" where
  "already_tagged revit_version [] ids s = (ids, s)"
| "already_tagged revit_version (tag # tags) ids s =
    (if revit_version \<le> 2021 then
       (case GetTaggedLocalElement tag of
          Inl m \<Rightarrow> already_tagged revit_version tags ids (emit (Print (ErrorProcessingTag m)) s)
        | Inr None \<Rightarrow> already_tagged revit_version tags ids s
        | Inr (Some tagged_id) \<Rightarrow> already_tagged revit_version tags (insert tagged_id ids) s)
     else
       (case GetTaggedLocalElements tag of
          Inl m \<Rightarrow> already_tagged revit_version tags ids (emit (Print (ErrorProcessingTag m)) s)
        | Inr tagged_elements \<Rightarrow> already_tagged revit_version tags (ids \<union> set tagged_elements) s))"

text \<open>
  How one statement of the loop body ends: it falls through to the next statement, it
  skips to the next element (\<^verbatim>\<open>continue\<close>), or it leaves the function (\<^verbatim>\<open>return\<close>).
\<close>

datatype flow = Proceed | Continue | Return

text \<open>Line 75: is the element to be skipped as not visible? The \<^verbatim>\<open>and\<close> is lazy.\<close>

definition skip_invisible :: "Host \<Rightarrow> (string \<rightharpoonup> bool) \<Rightarrow> View \<Rightarrow> Element \<Rightarrow> exc + bool" where
  "skip_invisible h toggle_settings view element =
    (case toggle_settings ''toggle_visibility'' of
       None \<Rightarrow> Inl (Exception ''KeyError'')
     | Some False \<Rightarrow> Inr False
     | Some True \<Rightarrow>
        (case is_element_visible_in_view h view element of
           Inl x \<Rightarrow> Inl x
         | Inr visible \<Rightarrow> Inr (\<not> visible)))"

text \<open>Lines 78 to 84: the prompt for a category without a loaded tag type.\<close>

definition tag_type_prompt :: "Host \<Rightarrow> Element \<Rightarrow> state \<Rightarrow> (exc + flow) \<times> state" where
  "tag_type_prompt h element s =
    (case elem_Category element of
       None \<Rightarrow> (Inl (Exception ''AttributeError''), s)
     | Some c \<Rightarrow>
        if \<not> is_tag_type_loaded h (cat_Id c) \<and> cat_Id c \<notin> ignored_tag_types s then
          (let s1 = emit (Alert c) s in
           case alert h (events s) (cat_Name c) of
             Inl x \<Rightarrow> (Inl x, s1)
           | Inr user_choice \<Rightarrow>
               if user_choice = PyStr ''No'' then (Inr Return, s1)
               else (Inr Proceed,
                     s1\<lparr>ignored_tag_types := insert (cat_Id c) (ignored_tag_types s1)\<rparr>))
        else (Inr Proceed, s))"

text \<open>Line 90: the condition of the variant with a leader. The \<^verbatim>\<open>and\<close> is lazy.\<close>

definition windows_in_plan :: "(string \<rightharpoonup> bool) \<Rightarrow> View \<Rightarrow> Element \<Rightarrow> exc + bool" where
  "windows_in_plan toggle_settings view element =
    (case elem_Category element of
       None \<Rightarrow> Inl (Exception ''AttributeError'')
     | Some c \<Rightarrow>
        if cat_Name c = ''Windows'' \<and> view_Type view = FloorPlan then
          (case toggle_settings ''tag_windows_in_plan'' of
             None \<Rightarrow> Inl (Exception ''KeyError'')
           | Some b \<Rightarrow> Inr b)
        else Inr False)"

text \<open>Lines 95 and 96: the deletion of a blank tag.\<close>

definition delete_if_blank ::
  "Host \<Rightarrow> (string \<rightharpoonup> bool) \<Rightarrow> IndependentTag \<Rightarrow> state \<Rightarrow> (exc + flow) \<times> state" where
  "delete_if_blank h toggle_settings tag s =
    (case toggle_settings ''check_blank_tag'' of
       None \<Rightarrow> (Inl (Exception ''KeyError''), s)
     | Some b \<Rightarrow>
        if b \<and> strip h (TagText tag) = [] then
          (case doc_Delete h (tag_Id tag) s of
             (Inl x, s1) \<Rightarrow> (Inl x, s1)
           | (Inr u, s1) \<Rightarrow> (Inr Proceed, s1))
        else (Inr Proceed, s))"

text \<open>Lines 86 to 96: the placement of the tag.\<close>

definition place_tag ::
  "Host \<Rightarrow> (string \<rightharpoonup> bool) \<Rightarrow> View \<Rightarrow> Element \<Rightarrow> state \<Rightarrow> (exc + flow) \<times> state" where
  "place_tag h toggle_settings view element s =
    (case get_projected_center_point h element of
       Inl x \<Rightarrow> (Inl x, s)
     | Inr None \<Rightarrow> (Inr Continue, s)
     | Inr (Some center_point) \<Rightarrow>
        (case windows_in_plan toggle_settings view element of
           Inl x \<Rightarrow> (Inl x, s)
         | Inr special \<Rightarrow>
            (case (if special
                   then IndependentTag_Create h (view_Id view) element True
                          TM_ADDBY_CATEGORY Horizontal center_point s
                   else IndependentTag_Create h (view_Id view) element False
                          TM_ADDBY_CATEGORY Horizontal center_point s) of
               (Inl x, s1) \<Rightarrow> (Inl x, s1)
             | (Inr tag, s1) \<Rightarrow> delete_if_blank h toggle_settings tag s1)))"

text \<open>Lines 70 to 96: the body of the \<^verbatim>\<open>try\<close> for one element.\<close>

definition process_element ::
  "Host \<Rightarrow> (string \<rightharpoonup> bool) \<Rightarrow> int set \<Rightarrow> View \<Rightarrow> nat \<Rightarrow> nat \<Rightarrow> Element \<Rightarrow> state
    \<Rightarrow> (exc + flow) \<times> state" where
  "process_element h toggle_settings already_tagged_element_ids view n idx element s =
    (let s0 = emit (UpdateProgress idx n) s in
     if elem_Id element \<in> already_tagged_element_ids then (Inr Continue, s0)
     else
       (case skip_invisible h toggle_settings view element of
          Inl x \<Rightarrow> (Inl x, s0)
        | Inr True \<Rightarrow> (Inr Continue, s0)
        | Inr False \<Rightarrow>
           (case tag_type_prompt h element s0 of
              (Inr Proceed, s1) \<Rightarrow> place_tag h toggle_settings view element s1
            | (r, s1) \<Rightarrow> (r, s1))))"

text \<open>
  Lines 69 and 98 to 100: the guard around one element. It catches the exceptions of
  class \<^verbatim>\<open>Exception\<close>, prints the element's identifier and the message, and goes on.
\<close>

definition try_element ::
  "Host \<Rightarrow> (string \<rightharpoonup> bool) \<Rightarrow> int set \<Rightarrow> View \<Rightarrow> nat \<Rightarrow> nat \<Rightarrow> Element \<Rightarrow> state
    \<Rightarrow> (exc + flow) \<times> state" where
  "try_element h toggle_settings already_tagged_element_ids view n idx element s =
    (case process_element h toggle_settings already_tagged_element_ids view n idx element s of
       (Inl (Exception m), s1) \<Rightarrow>
          (Inr Continue, emit (Print (ErrorProcessingElement (elem_Id element) m)) s1)
     | (r, s1) \<Rightarrow> (r, s1))"

text \<open>Line 68: the loop over the elements, with their indices.\<close>

fun tag_loop ::
  "Host \<Rightarrow> (string \<rightharpoonup> bool) \<Rightarrow> int set \<Rightarrow> View \<Rightarrow> nat \<Rightarrow> nat \<Rightarrow> Element list \<Rightarrow> state
    \<Rightarrow> (exc + unit) \<times> state" where
  "tag_loop h toggle_settings ids view n idx [] s = (Inr (), s)"
| "tag_loop h toggle_settings ids view n idx (element # rest) s =
    (case try_element h toggle_settings ids view n idx element s of
       (Inl x, s1) \<Rightarrow> (Inl x, s1)
     | (Inr Return, s1) \<Rightarrow> (Inr (), s1)
     | (Inr f, s1) \<Rightarrow> tag_loop h toggle_settings ids view n (Suc idx) rest s1)"

text \<open>The tags of a view (line 47) and the identifiers they cover (lines 49 to 66).\<close>

definition existing_tags :: "View \<Rightarrow> state \<Rightarrow> IndependentTag list" where
  "existing_tags view s = filter (\<lambda>t. OwnerViewId t = view_Id view) (doc_tags s)"

definition tag_elements_in_view ::
  "Host \<Rightarrow> View \<Rightarrow> Element list \<Rightarrow> state \<Rightarrow> (exc + unit) \<times> state" where
  "tag_elements_in_view h view elements s =
    (case get_revit_version h of
       Inl x \<Rightarrow> (Inl x, s)
     | Inr revit_version \<Rightarrow>
        (let s1 = emit (Print (RunningOnVersion revit_version)) s;
             s2 = emit LoadToggleSettings s1
         in case load_toggle_settings h (events s1) of
              Inl m \<Rightarrow> (Inl (Exception m), s2)
            | Inr toggle_settings \<Rightarrow>
               (case already_tagged revit_version (existing_tags view s2) {} s2 of
                  (already_tagged_element_ids, s3) \<Rightarrow>
                    tag_loop h toggle_settings already_tagged_element_ids view
                      (length elements) 0 elements s3)))"

subsection \<open>The selection stages (lines 104 to 160)\<close>

fun get_Items :: "Host \<Rightarrow> string list \<Rightarrow> string + Category list" where
  "get_Items h [] = Inr []"
| "get_Items h (name # names) =
    (case Categories_get_Item h name of
       Inl m \<Rightarrow> Inl m
     | Inr c \<Rightarrow> (case get_Items h names of Inl m \<Rightarrow> Inl m | Inr cs \<Rightarrow> Inr (c # cs)))"

definition select_categories :: "Host \<Rightarrow> state \<Rightarrow> (exc + Category list) \<times> state" where
  "select_categories h s =
    (case load_configs h of
       Inl m \<Rightarrow> (Inl (Exception m), s)
     | Inr specific_categories \<Rightarrow>
        (let category_names =
               map cat_Name
                 (filter (\<lambda>cat. cat_Name cat \<in> set specific_categories \<and> AllowsBoundParameters cat)
                    (Categories h));
             s1 = emit (SelectFromList ''Select Categories to Tag'' category_names) s
         in case SelectFromList_show h (events s) ''Select Categories to Tag'' category_names of
              Inl m \<Rightarrow> (Inl (Exception m), emit (Print (ErrorIn ''select_categories'' m)) s1)
            | Inr None \<Rightarrow> (Inl SystemExit, s1)
            | Inr (Some selected_category_names) \<Rightarrow>
               (case get_Items h selected_category_names of
                  Inl m \<Rightarrow> (Inl (Exception m), emit (Print (ErrorIn ''select_categories'' m)) s1)
                | Inr selected_categories \<Rightarrow>
                    (Inr selected_categories,
                     emit (Print (SelectedCategories selected_category_names)) s1))))"

fun collect_elements :: "Host \<Rightarrow> Category list \<Rightarrow> Element list \<Rightarrow> state \<Rightarrow> Element list \<times> state" where
  "collect_elements h [] selected_elements s = (selected_elements, s)"
| "collect_elements h (category # rest) selected_elements s =
    (let category_elements =
           filter (\<lambda>el. map_option cat_Id (elem_Category el) = Some (cat_Id category)) (Elements h);
         s1 = s\<lparr>element_cache := (element_cache s)(cat_Id category \<mapsto> category_elements)\<rparr>;
         s2 = emit (Print (CollectedElements (cat_Name category) (map elem_Id category_elements))) s1
     in collect_elements h rest (selected_elements @ category_elements) s2)"

definition select_elements :: "Host \<Rightarrow> Category list \<Rightarrow> state \<Rightarrow> (exc + Element list) \<times> state" where
  "select_elements h selected_categories s =
    (case collect_elements h selected_categories [] s of
       (selected_elements, s1) \<Rightarrow> (Inr selected_elements, s1))"

definition select_views :: "Host \<Rightarrow> state \<Rightarrow> (exc + View list) \<times> state" where
  "select_views h s =
    (let all_views = Views h;
         available_views =
           filter (\<lambda>v. view_Type v \<in> set [FloorPlan, Elevation, Section] \<and> \<not> IsTemplate v) all_views;
         view_names = sort (map view_Name available_views);
         s1 = emit (SelectFromList ''Select Views'' view_names) s
     in case SelectFromList_show h (events s) ''Select Views'' view_names of
          Inl m \<Rightarrow> (Inl (Exception m), emit (Print (ErrorIn ''select_views'' m)) s1)
        | Inr None \<Rightarrow> (Inl SystemExit, s1)
        | Inr (Some selected_view_names) \<Rightarrow>
            (Inr (filter (\<lambda>v. view_Name v \<in> set selected_view_names) available_views),
             emit (Print (SelectedViews selected_view_names)) s1))"

subsection \<open>The run (lines 163 to 186)\<close>

fun tag_views :: "Host \<Rightarrow> View list \<Rightarrow> Element list \<Rightarrow> state \<Rightarrow> (exc + unit) \<times> state" where
  "tag_views h [] selected_elements s = (Inr (), s)"
| "tag_views h (view # rest) selected_elements s =
    (case tag_elements_in_view h view selected_elements s of
       (Inl x, s1) \<Rightarrow> (Inl x, s1)
     | (Inr u, s1) \<Rightarrow> tag_views h rest selected_elements s1)"

text \<open>
  Lines 166 to 174. The handler \<^verbatim>\<open>except Exception\<close> rolls back and raises again;
  \<^verbatim>\<open>SystemExit\<close> passes it by.
\<close>

definition tag_elements_in_selected_views ::
  "Host \<Rightarrow> View list \<Rightarrow> Element list \<Rightarrow> state \<Rightarrow> (exc + unit) \<times> state" where
  "tag_elements_in_selected_views h selected_views selected_elements s =
    (case tag_views h selected_views selected_elements (Transaction_Start s) of
       (Inr u, s1) \<Rightarrow> (Inr (), Transaction_Commit s1)
     | (Inl (Exception m), s1) \<Rightarrow> (Inl (Exception m), Transaction_RollBack s1)
     | (Inl SystemExit, s1) \<Rightarrow> (Inl SystemExit, s1))"

text \<open>Lines 183 to 186: the two handlers of the top level.\<close>

fun top_level_handler :: "exc \<Rightarrow> state \<Rightarrow> state" where
  "top_level_handler SystemExit s = s"
| "top_level_handler (Exception m) s = emit (Print (GeneralError m)) s"

text \<open>Lines 177 to 186: the script itself.\<close>

definition script :: "Host \<Rightarrow> state \<Rightarrow> state" where
  "script h s =
    (case select_categories h s of
       (Inl x, s1) \<Rightarrow> top_level_handler x s1
     | (Inr selected_categories, s1) \<Rightarrow>
        (case select_elements h selected_categories s1 of
           (Inl x, s2) \<Rightarrow> top_level_handler x s2
         | (Inr selected_elements, s2) \<Rightarrow>
            (case select_views h s2 of
               (Inl x, s3) \<Rightarrow> top_level_handler x s3
             | (Inr selected_views, s3) \<Rightarrow>
                if selected_elements \<noteq> [] \<and> selected_views \<noteq> [] then
                  (case tag_elements_in_selected_views h selected_views selected_elements s3 of
                     (Inl x, s4) \<Rightarrow> top_level_handler x s4
                   | (Inr u, s4) \<Rightarrow> s4)
                else s3)))"

section \<open>Notions used by the properties\<close>

text \<open>
  The identifiers that the tagger collects from the tags a view already has, as
  \<open>tag_elements_in_view\<close> computes them before its loop.
\<close>

definition covered_ids :: "Host \<Rightarrow> View \<Rightarrow> state \<Rightarrow> int set" where
  "covered_ids h view s =
    (case get_revit_version h of
       Inl x \<Rightarrow> {}
     | Inr revit_version \<Rightarrow> fst (already_tagged revit_version (existing_tags view s) {} s))"

text \<open>What one tag contributes to them, by host version.\<close>

definition tag_covers :: "int \<Rightarrow> IndependentTag \<Rightarrow> int set" where
  "tag_covers v t =
    (if v \<le> 2021 then (case GetTaggedLocalElement t of Inr (Some i) \<Rightarrow> {i} | _ \<Rightarrow> {})
     else (case GetTaggedLocalElements t of Inr js \<Rightarrow> set js | _ \<Rightarrow> {}))"

text \<open>
  \<open>adds s s' Q\<close>: the state \<open>s'\<close> has the events of \<open>s\<close> and, after them, only events
  that satisfy \<open>Q\<close>.
\<close>

definition adds :: "state \<Rightarrow> state \<Rightarrow> (event \<Rightarrow> bool) \<Rightarrow> bool" where
  "adds s s' Q \<longleftrightarrow> (\<exists>es. events s' = events s @ es \<and> (\<forall>ev\<in>set es. Q ev))"

text \<open>The events that the processing of one element can cause.\<close>

fun element_event :: "Host \<Rightarrow> (string \<rightharpoonup> bool) \<Rightarrow> int set \<Rightarrow> View \<Rightarrow> Element \<Rightarrow> event \<Rightarrow> bool" where
  "element_event h ts ids view e (UpdateProgress i n) = True"
| "element_event h ts ids view e (Alert c) =
     (elem_Category e = Some c \<and> \<not> is_tag_type_loaded h (cat_Id c))"
| "element_event h ts ids view e (Create vid e' leader tmode orient p) =
     (vid = view_Id view \<and> e' = e \<and> elem_Id e \<notin> ids \<and> tmode = TM_ADDBY_CATEGORY \<and>
      orient = Horizontal \<and> windows_in_plan ts view e = Inr leader \<and>
      get_projected_center_point h e = Inr (Some p))"
| "element_event h ts ids view e (Delete i) = True"
| "element_event h ts ids view e (Print l) = (\<exists>m. l = ErrorProcessingElement (elem_Id e) m)"
| "element_event h ts ids view e ev = False"

text \<open>The toggle settings that a call of the tagger in state \<open>s\<close> loads (line 46).\<close>

definition view_settings :: "Host \<Rightarrow> state \<Rightarrow> string + (string \<rightharpoonup> bool)" where
  "view_settings h s =
    (case get_revit_version h of
       Inl x \<Rightarrow> Inl ''no version''
     | Inr revit_version \<Rightarrow>
        load_toggle_settings h (events s @ [Print (RunningOnVersion revit_version)]))"

text \<open>The events that one call of the tagger can cause.\<close>

definition view_event :: "Host \<Rightarrow> View \<Rightarrow> Element list \<Rightarrow> state \<Rightarrow> event \<Rightarrow> bool" where
  "view_event h view els s ev \<longleftrightarrow>
     (\<exists>l. ev = Print l) \<or> ev = LoadToggleSettings \<or>
     (\<exists>e\<in>set els. \<exists>ts. view_settings h s = Inr ts \<and>
        element_event h ts (covered_ids h view s) view e ev)"

text \<open>
  Exact arithmetic on finite doubles, without rounding, and the operators of points that
  compute with it.
\<close>

fun dbl_plus :: "double \<Rightarrow> double \<Rightarrow> double" where
  "dbl_plus (Finite x) (Finite y) = Finite (x + y)"
| "dbl_plus a b = NaN"

fun dbl_minus :: "double \<Rightarrow> double \<Rightarrow> double" where
  "dbl_minus (Finite x) (Finite y) = Finite (x - y)"
| "dbl_minus a b = NaN"

fun dbl_times :: "double \<Rightarrow> double \<Rightarrow> double" where
  "dbl_times (Finite x) (Finite y) = Finite (x * y)"
| "dbl_times a b = NaN"

definition exact_add :: "XYZ \<Rightarrow> XYZ \<Rightarrow> XYZ" where
  "exact_add a b =
     \<lparr>xyz_X = dbl_plus (xyz_X a) (xyz_X b), xyz_Y = dbl_plus (xyz_Y a) (xyz_Y b),
      xyz_Z = dbl_plus (xyz_Z a) (xyz_Z b)\<rparr>"

definition exact_sub :: "XYZ \<Rightarrow> XYZ \<Rightarrow> XYZ" where
  "exact_sub a b =
     \<lparr>xyz_X = dbl_minus (xyz_X a) (xyz_X b), xyz_Y = dbl_minus (xyz_Y a) (xyz_Y b),
      xyz_Z = dbl_minus (xyz_Z a) (xyz_Z b)\<rparr>"

definition exact_rmul :: "double \<Rightarrow> XYZ \<Rightarrow> XYZ" where
  "exact_rmul k a =
     \<lparr>xyz_X = dbl_times k (xyz_X a), xyz_Y = dbl_times k (xyz_Y a),
      xyz_Z = dbl_times k (xyz_Z a)\<rparr>"

definition point :: "real \<Rightarrow> real \<Rightarrow> real \<Rightarrow> XYZ" where
  "point x y z = \<lparr>xyz_X = Finite x, xyz_Y = Finite y, xyz_Z = Finite z\<rparr>"

text \<open>
  The three operations of line 35 are exact on the box \<open>b\<close>: the host computes the
  difference of the corners, its half, and the sum with the lower corner without rounding.
\<close>

definition exact_on :: "Host \<Rightarrow> BoundingBoxXYZ \<Rightarrow> bool" where
  "exact_on h b \<longleftrightarrow>
     (let d = exact_sub (bbox_Max b) (bbox_Min b);
          half = exact_rmul (Finite 0.5) d
      in XYZ_sub h (bbox_Max b) (bbox_Min b) = d \<and>
         XYZ_rmul h (Finite 0.5) d = half \<and>
         XYZ_add h (bbox_Min b) half = exact_add (bbox_Min b) half)"

text \<open>
  The arithmetic of the doubles of the host's runtime (IEEE 754 binary64): the exact result
  of an operation is rounded to the nearest double, a tie to the one with the even
  significand. A real \<open>x\<close> with \<open>2\<^sup>e \<le> \<bar>x\<bar> < 2\<^sup>e\<^sup>+\<^sup>1\<close> is rounded to a multiple of
  \<open>2\<close> to the power \<open>max e (-1022) - 52\<close> (a significand of 53 bits, gradual underflow), and
  a rounded magnitude of \<open>2\<^sup>1\<^sup>0\<^sup>2\<^sup>4\<close> or more is an infinity. The sign of zero is not
  distinguished.
\<close>

definition round_half_even :: "real \<Rightarrow> int" where
  "round_half_even x =
     (if x - of_int \<lfloor>x\<rfloor> < 1 / 2 then \<lfloor>x\<rfloor>
      else if 1 / 2 < x - of_int \<lfloor>x\<rfloor> then \<lfloor>x\<rfloor> + 1
      else if even \<lfloor>x\<rfloor> then \<lfloor>x\<rfloor> else \<lfloor>x\<rfloor> + 1)"

definition ulp_exponent :: "real \<Rightarrow> int" where
  "ulp_exponent x = max \<lfloor>log 2 \<bar>x\<bar>\<rfloor> (- 1022) - 52"

definition round_double :: "real \<Rightarrow> double" where
  "round_double x =
     (if x = 0 then Finite 0
      else
        (let y = of_int (round_half_even (x / 2 powi ulp_exponent x)) * 2 powi ulp_exponent x
         in if 2 ^ 1024 \<le> \<bar>y\<bar> then (if 0 < x then PlusInfinity else MinusInfinity)
            else Finite y))"

fun ieee_neg :: "double \<Rightarrow> double" where
  "ieee_neg (Finite x) = Finite (- x)"
| "ieee_neg PlusInfinity = MinusInfinity"
| "ieee_neg MinusInfinity = PlusInfinity"
| "ieee_neg NaN = NaN"

fun ieee_plus :: "double \<Rightarrow> double \<Rightarrow> double" where
  "ieee_plus (Finite x) (Finite y) = round_double (x + y)"
| "ieee_plus NaN b = NaN"
| "ieee_plus a NaN = NaN"
| "ieee_plus PlusInfinity MinusInfinity = NaN"
| "ieee_plus MinusInfinity PlusInfinity = NaN"
| "ieee_plus PlusInfinity b = PlusInfinity"
| "ieee_plus MinusInfinity b = MinusInfinity"
| "ieee_plus a b = b"

definition ieee_minus :: "double \<Rightarrow> double \<Rightarrow> double" where
  "ieee_minus a b = ieee_plus a (ieee_neg b)"

fun ieee_times :: "double \<Rightarrow> double \<Rightarrow> double" where
  "ieee_times (Finite x) (Finite y) = round_double (x * y)"
| "ieee_times NaN b = NaN"
| "ieee_times a NaN = NaN"
| "ieee_times (Finite x) b = (if x = 0 then NaN else if 0 < x then b else ieee_neg b)"
| "ieee_times a (Finite y) = (if y = 0 then NaN else if 0 < y then a else ieee_neg a)"
| "ieee_times a b = (if a = b then PlusInfinity else MinusInfinity)"

definition ieee_add :: "XYZ \<Rightarrow> XYZ \<Rightarrow> XYZ" where
  "ieee_add a b =
     \<lparr>xyz_X = ieee_plus (xyz_X a) (xyz_X b), xyz_Y = ieee_plus (xyz_Y a) (xyz_Y b),
      xyz_Z = ieee_plus (xyz_Z a) (xyz_Z b)\<rparr>"

definition ieee_sub :: "XYZ \<Rightarrow> XYZ \<Rightarrow> XYZ" where
  "ieee_sub a b =
     \<lparr>xyz_X = ieee_minus (xyz_X a) (xyz_X b), xyz_Y = ieee_minus (xyz_Y a) (xyz_Y b),
      xyz_Z = ieee_minus (xyz_Z a) (xyz_Z b)\<rparr>"

definition ieee_rmul :: "double \<Rightarrow> XYZ \<Rightarrow> XYZ" where
  "ieee_rmul k a =
     \<lparr>xyz_X = ieee_times k (xyz_X a), xyz_Y = ieee_times k (xyz_Y a),
      xyz_Z = ieee_times k (xyz_Z a)\<rparr>"

text \<open>The midpoint of two finite corners, as the specification words it.\<close>

definition midpoint_xyz :: "XYZ \<Rightarrow> XYZ \<Rightarrow> XYZ" where
  "midpoint_xyz a b =
     (case (xyz_X a, xyz_Y a, xyz_Z a, xyz_X b, xyz_Y b, xyz_Z b) of
        (Finite x, Finite y, Finite z, Finite x', Finite y', Finite z') \<Rightarrow>
           point ((x + x') / 2) ((y + y') / 2) ((z + z') / 2)
      | _ \<Rightarrow> \<lparr>xyz_X = NaN, xyz_Y = NaN, xyz_Z = NaN\<rparr>)"

text \<open>The indices of the progress updates in a trace, in order.\<close>

fun progress_indices :: "event list \<Rightarrow> nat list" where
  "progress_indices [] = []"
| "progress_indices (UpdateProgress i n # evs) = i # progress_indices evs"
| "progress_indices (ev # evs) = progress_indices evs"

text \<open>The elements of the creation calls in a trace, in order.\<close>

fun create_calls :: "event list \<Rightarrow> Element list" where
  "create_calls [] = []"
| "create_calls (Create vid e leader tmode orient p # evs) = e # create_calls evs"
| "create_calls (ev # evs) = create_calls evs"

text \<open>Events that are neither a progress update nor a creation.\<close>

fun quiet :: "event \<Rightarrow> bool" where
  "quiet (UpdateProgress i n) = False"
| "quiet (Create vid e leader tmode orient p) = False"
| "quiet ev = True"

text \<open>The prompt never ends the script and never returns \<^verbatim>\<open>'No'\<close>.\<close>

definition prompt_goes_on :: "Host \<Rightarrow> bool" where
  "prompt_goes_on h \<longleftrightarrow>
     (\<forall>evs name. alert h evs name \<noteq> Inl SystemExit \<and> alert h evs name \<noteq> Inr (PyStr ''No''))"

text \<open>The tag that the host makes of a successful creation call, with identifier \<open>i\<close>.\<close>

definition created_tag :: "Host \<Rightarrow> int \<Rightarrow> Element \<Rightarrow> bool \<Rightarrow> XYZ \<Rightarrow> int \<Rightarrow> IndependentTag" where
  "created_tag h vid e leader p i =
     \<lparr>tag_Id = i, OwnerViewId = vid,
      GetTaggedLocalElement = Inr (Some (elem_Id e)),
      GetTaggedLocalElements = Inr [elem_Id e],
      HasLeader = leader, tag_Mode = TM_ADDBY_CATEGORY, tag_Orientation = Horizontal,
      TagHeadPosition = p, TagText = created_TagText h vid e\<rparr>"

text \<open>A label is blank: it is empty or has whitespace only.\<close>

definition blank :: "Host \<Rightarrow> string \<Rightarrow> bool" where
  "blank h text \<longleftrightarrow> (\<forall>c\<in>set text. isspace h c)"

definition no_delete :: "event \<Rightarrow> bool" where
  "no_delete ev \<longleftrightarrow> (\<forall>i. ev \<noteq> Delete i)"

text \<open>
  What the blank-tag check guarantees between two states: with the check on and no
  deletion refused, every tag that is new has a label that is not blank; with the check
  off, nothing is deleted and no tag is lost.
\<close>

definition blank_rule :: "Host \<Rightarrow> (string \<rightharpoonup> bool) \<Rightarrow> state \<Rightarrow> state \<Rightarrow> bool" where
  "blank_rule h ts s s' \<longleftrightarrow>
     (ts ''check_blank_tag'' = Some True \<and> (\<forall>i. delete_fails h i = None) \<longrightarrow>
        (\<forall>t\<in>set (doc_tags s'). t \<in> set (doc_tags s) \<or> \<not> blank h (TagText t))) \<and>
     (ts ''check_blank_tag'' = Some False \<longrightarrow>
        adds s s' no_delete \<and> set (doc_tags s) \<subseteq> set (doc_tags s'))"

text \<open>Events that are not calls on the transaction.\<close>

definition no_tx :: "event \<Rightarrow> bool" where
  "no_tx ev \<longleftrightarrow> ev \<noteq> TxStart \<and> ev \<noteq> TxCommit \<and> ev \<noteq> TxRollBack"

text \<open>The number of loads of the toggle settings in a trace.\<close>

definition load_count :: "event list \<Rightarrow> nat" where
  "load_count evs = length (filter (\<lambda>ev. ev = LoadToggleSettings) evs)"

text \<open>Events of a call of the tagger after the load of the settings.\<close>

definition after_load :: "event \<Rightarrow> bool" where
  "after_load ev \<longleftrightarrow> ev \<noteq> LoadToggleSettings \<and> no_tx ev"

text \<open>The lines and dialogs of the selection stages when nothing fails.\<close>

fun selection_trace :: "event \<Rightarrow> bool" where
  "selection_trace (SelectFromList title names) = True"
| "selection_trace (Print (SelectedCategories names)) = True"
| "selection_trace (Print (CollectedElements name ids)) = True"
| "selection_trace (Print (SelectedViews names)) = True"
| "selection_trace ev = False"

text \<open>
  Between two states, the approved categories only grow and no prompt is shown for a
  category that was approved at the start.
\<close>

definition alert_rule :: "state \<Rightarrow> state \<Rightarrow> bool" where
  "alert_rule s s' \<longleftrightarrow>
     ignored_tag_types s \<subseteq> ignored_tag_types s' \<and>
     adds s s' (\<lambda>ev. \<forall>c. ev = Alert c \<longrightarrow> cat_Id c \<notin> ignored_tag_types s)"


text \<open>
  The state in which a run stops when the user declines the prompt: the last event is the
  prompt for a category, and that call of the prompt has ended the script.
\<close>

definition stopped_at_prompt :: "Host \<Rightarrow> state \<Rightarrow> bool" where
  "stopped_at_prompt h s \<longleftrightarrow>
     (\<exists>c evs. events s = evs @ [Alert c] \<and> alert h evs (cat_Name c) = Inl SystemExit)"


text \<open>
  No prompt stands in the way of the elements \<open>els\<close> from state \<open>s\<close> on: the user goes on
  at every prompt, or every category among the elements has a tag type or is approved.
\<close>

definition prompts_pass :: "Host \<Rightarrow> state \<Rightarrow> Element list \<Rightarrow> bool" where
  "prompts_pass h s els \<longleftrightarrow>
     (\<forall>evs name. \<exists>v. alert h evs name = Inr v \<and> v \<noteq> PyStr ''No'') \<or>
     (\<forall>e\<in>set els. \<forall>c. elem_Category e = Some c \<longrightarrow>
        is_tag_type_loaded h (cat_Id c) \<or> cat_Id c \<in> ignored_tag_types s)"

text \<open>
  An element passes the filters of the loop body other than the prompt: it is not among the
  identifiers \<open>ids\<close>, it is not skipped as invisible, it has a center point, and the
  condition of line 90 can be evaluated (so it has a category).
\<close>

definition tag_candidate ::
  "Host \<Rightarrow> (string \<rightharpoonup> bool) \<Rightarrow> int set \<Rightarrow> View \<Rightarrow> Element \<Rightarrow> bool" where
  "tag_candidate h ts ids view e \<longleftrightarrow>
     elem_Id e \<notin> ids \<and>
     skip_invisible h ts view e = Inr False \<and>
     (\<exists>p. get_projected_center_point h e = Inr (Some p)) \<and>
     (\<exists>l. windows_in_plan ts view e = Inr l)"

text \<open>The tags that the document has gained between two states, after its old ones.\<close>

definition new_tags :: "state \<Rightarrow> state \<Rightarrow> IndependentTag list" where
  "new_tags s s' = drop (length (doc_tags s)) (doc_tags s')"

text \<open>
  The tags \<open>new\<close> are tags of the view, one for each element of the list \<open>es\<close>, in order,
  and each covers its element.
\<close>

definition tags_for :: "View \<Rightarrow> Element list \<Rightarrow> IndependentTag list \<Rightarrow> bool" where
  "tags_for view es new \<longleftrightarrow>
     map OwnerViewId new = map (\<lambda>e. view_Id view) es \<and>
     map GetTaggedLocalElement new = map (\<lambda>e. Inr (Some (elem_Id e))) es \<and>
     map GetTaggedLocalElements new = map (\<lambda>e. Inr [elem_Id e]) es"

section \<open>A small project, for concrete runs\<close>

definition doors :: Category where
  "doors = \<lparr>cat_Name = ''Doors'', cat_Id = 23, AllowsBoundParameters = True\<rparr>"

definition windows :: Category where
  "windows = \<lparr>cat_Name = ''Windows'', cat_Id = 14, AllowsBoundParameters = True\<rparr>"

definition box0 :: BoundingBoxXYZ where
  "box0 = \<lparr>bbox_Min = \<lparr>xyz_X = Finite 0, xyz_Y = Finite 0, xyz_Z = Finite 0\<rparr>,
           bbox_Max = \<lparr>xyz_X = Finite 2, xyz_Y = Finite 4, xyz_Z = Finite 6\<rparr>\<rparr>"

definition door1 :: Element where
  "door1 = \<lparr>elem_Id = 101, elem_Category = Some doors, get_BoundingBox = Inr (Some box0)\<rparr>"

definition door2 :: Element where
  "door2 = \<lparr>elem_Id = 102, elem_Category = Some doors, get_BoundingBox = Inr (Some box0)\<rparr>"

definition window1 :: Element where
  "window1 = \<lparr>elem_Id = 201, elem_Category = Some windows, get_BoundingBox = Inr (Some box0)\<rparr>"

definition boxless :: Element where
  "boxless = \<lparr>elem_Id = 103, elem_Category = Some doors, get_BoundingBox = Inr None\<rparr>"

text \<open>A window without a bounding box.\<close>

definition boxless_window :: Element where
  "boxless_window = \<lparr>elem_Id = 203, elem_Category = Some windows, get_BoundingBox = Inr None\<rparr>"

definition level1 :: View where
  "level1 = \<lparr>view_Id = 1, view_Name = ''Level 1'', view_Type = FloorPlan, IsTemplate = False\<rparr>"

definition level2 :: View where
  "level2 = \<lparr>view_Id = 2, view_Name = ''Level 2'', view_Type = FloorPlan, IsTemplate = False\<rparr>"

definition toggles_off :: "string \<rightharpoonup> bool" where
  "toggles_off = [''toggle_visibility'' \<mapsto> False, ''check_blank_tag'' \<mapsto> False,
                  ''tag_windows_in_plan'' \<mapsto> False]"

definition toggles_on :: "string \<rightharpoonup> bool" where
  "toggles_on = [''toggle_visibility'' \<mapsto> True, ''check_blank_tag'' \<mapsto> True,
                 ''tag_windows_in_plan'' \<mapsto> True]"

text \<open>
  A host of version 2024 with a loaded type for doors only, every element visible in
  every view, settings all off, a user who answers yes, no refusals, and the arithmetic of
  doubles.
\<close>

definition host0 :: Host where
  "host0 = \<lparr>VersionNumber = Inr 2024,
            ElementTypes = [23],
            view_elements = (\<lambda>v. [door1, door2, window1, boxless]),
            Categories = [doors, windows],
            Categories_get_Item = (\<lambda>name. if name = ''Doors'' then Inr doors
                                     else if name = ''Windows'' then Inr windows
                                     else Inl ''not found''),
            Elements = [door1, door2, window1, boxless],
            Views = [level1],
            load_configs = Inr [''Doors'', ''Windows''],
            load_toggle_settings = (\<lambda>evs. Inr toggles_off),
            alert = (\<lambda>evs name. Inr (PyBool True)),
            SelectFromList_show = (\<lambda>evs title names. Inr (Some names)),
            create_fails = (\<lambda>vid e. None),
            created_TagText = (\<lambda>vid e. ''D''),
            delete_fails = (\<lambda>i. None),
            isspace = (\<lambda>c. c = CHR '' ''),
            XYZ_add = ieee_add, XYZ_sub = ieee_sub, XYZ_rmul = ieee_rmul\<rparr>"

definition state0 :: state where
  "state0 = \<lparr>doc_tags = [], next_id = 1000, tx = NotStarted, ignored_tag_types = {},
             element_cache = Map.empty, events = []\<rparr>"

text \<open>A tag of door 101 in the view Level 1, and the project that has it already.\<close>

definition tag0 :: IndependentTag where
  "tag0 = \<lparr>tag_Id = 900, OwnerViewId = 1, GetTaggedLocalElement = Inr (Some 101),
           GetTaggedLocalElements = Inr [101], HasLeader = False,
           tag_Mode = TM_ADDBY_CATEGORY, tag_Orientation = Horizontal,
           TagHeadPosition = \<lparr>xyz_X = Finite 1, xyz_Y = Finite 2, xyz_Z = Finite 3\<rparr>, TagText = ''D''\<rparr>"

definition state1 :: state where
  "state1 = state0\<lparr>doc_tags := [tag0]\<rparr>"

text \<open>The same host with tag types for doors and windows, and all settings on.\<close>

definition host1 :: Host where
  "host1 = host0\<lparr>ElementTypes := [23, 14], load_toggle_settings := (\<lambda>evs. Inr toggles_on)\<rparr>"

text \<open>A host whose prompt ends the script, and a host that refuses every creation.\<close>

definition host_exit :: Host where
  "host_exit = host0\<lparr>alert := (\<lambda>evs name. Inl SystemExit)\<rparr>"

definition host_refuse :: Host where
  "host_refuse = host0\<lparr>create_fails := (\<lambda>vid e. Some ''refused'')\<rparr>"

text \<open>A host with all settings on whose new tags have a label of two spaces.\<close>

definition host_blank :: Host where
  "host_blank = host0\<lparr>load_toggle_settings := (\<lambda>evs. Inr toggles_on),
                        created_TagText := (\<lambda>vid e. ''  '')\<rparr>"

text \<open>The center of \<open>box0\<close>.\<close>

definition p0 :: XYZ where
  "p0 = \<lparr>xyz_X = Finite 1, xyz_Y = Finite 2, xyz_Z = Finite 3\<rparr>"

text \<open>
  A host whose settings change between two loads (all off at first, all on from the second
  load), and a host whose settings can be loaded only once.
\<close>

definition host_change :: Host where
  "host_change = host1\<lparr>load_toggle_settings :=
     (\<lambda>evs. if LoadToggleSettings \<in> set evs then Inr toggles_on else Inr toggles_off)\<rparr>"

definition host_cfg_fail :: Host where
  "host_cfg_fail = host0\<lparr>load_toggle_settings :=
     (\<lambda>evs. if LoadToggleSettings \<in> set evs then Inl ''settings unreadable'' else Inr toggles_off)\<rparr>"

text \<open>
  A user who cancels every selection dialog, and a user who selects the doors and then
  cancels the selection of views.
\<close>

definition host_cancel :: Host where
  "host_cancel = host0\<lparr>SelectFromList_show := (\<lambda>evs title names. Inr None)\<rparr>"

definition host_cancel_views :: Host where
  "host_cancel_views = host0\<lparr>SelectFromList_show :=
     (\<lambda>evs title names. if title = ''Select Views'' then Inr None else Inr (Some [''Doors'']))\<rparr>"


text \<open>
  A door whose box reaches from 0.2 to 1 in every coordinate; \<open>fifth\<close> is the double that
  the literal 0.2 denotes.
\<close>

definition fifth :: real where
  "fifth = 3602879701896397 / 18014398509481984"

definition box_fifth :: BoundingBoxXYZ where
  "box_fifth = \<lparr>bbox_Min = point fifth fifth fifth, bbox_Max = point 1 1 1\<rparr>"

definition door_fifth :: Element where
  "door_fifth = \<lparr>elem_Id = 104, elem_Category = Some doors, get_BoundingBox = Inr (Some box_fifth)\<rparr>"

section \<open>Basic facts\<close>

subsection \<open>Rounding to doubles\<close>

lemma ulp_exponent_binade:
  assumes "2 powi k \<le> \<bar>x\<bar>" "\<bar>x\<bar> < 2 powi (k + 1)" "- 1022 \<le> k"
  shows "ulp_exponent x = k - 52"
proof -
  have p: "(0::real) < 2 powi k" by simp
  with assms(1) have pos: "0 < \<bar>x\<bar>" by linarith
  have a: "2 powr real_of_int k = (2::real) powi k"
    by (simp add: powr_real_of_int')
  have b: "2 powr real_of_int (k + 1) = (2::real) powi (k + 1)"
    by (rule powr_real_of_int') simp_all
  have "\<lfloor>log 2 \<bar>x\<bar>\<rfloor> = k"
    using assms(1,2) pos unfolding a [symmetric] b [symmetric]
    by (subst floor_log_eq_powr_iff) simp_all
  with assms(3) show ?thesis by (simp add: ulp_exponent_def)
qed

lemma round_double_binade:
  assumes "2 powi k \<le> \<bar>x\<bar>" "\<bar>x\<bar> < 2 powi (k + 1)" "- 1022 \<le> k"
  shows "round_double x =
     (let y = of_int (round_half_even (x / 2 powi (k - 52))) * 2 powi (k - 52)
      in if 2 ^ 1024 \<le> \<bar>y\<bar> then (if 0 < x then PlusInfinity else MinusInfinity)
         else Finite y)"
proof -
  have p: "(0::real) < 2 powi k" by simp
  with assms(1) have "0 < \<bar>x\<bar>" by linarith
  then have "x \<noteq> 0" by auto
  then show ?thesis
    unfolding round_double_def ulp_exponent_binade [OF assms] by simp
qed

lemma round_double_small:
  "round_double 1 = Finite 1"
  "round_double 2 = Finite 2"
  "round_double 3 = Finite 3"
  "round_double 4 = Finite 4"
  "round_double 6 = Finite 6"
proof -
  show "round_double 1 = Finite 1"
    by (subst round_double_binade [of 0])
       (simp_all add: power_int_minus round_half_even_def Let_def)
  show "round_double 2 = Finite 2"
    by (subst round_double_binade [of 1])
       (simp_all add: power_int_minus round_half_even_def Let_def)
  show "round_double 3 = Finite 3"
    by (subst round_double_binade [of 1])
       (simp_all add: power_int_minus round_half_even_def Let_def)
  show "round_double 4 = Finite 4"
    by (subst round_double_binade [of 2])
       (simp_all add: power_int_minus round_half_even_def Let_def)
  show "round_double 6 = Finite 6"
    by (subst round_double_binade [of 2])
       (simp_all add: power_int_minus round_half_even_def Let_def)
qed

lemma round_double_zero: "round_double 0 = Finite 0"
  by (simp add: round_double_def)

lemmas double_simps =
  ieee_add_def ieee_sub_def ieee_rmul_def ieee_minus_def round_double_small round_double_zero

lemma emit_simps [simp]:
  "events (emit ev s) = events s @ [ev]"
  "doc_tags (emit ev s) = doc_tags s"
  "next_id (emit ev s) = next_id s"
  "tx (emit ev s) = tx s"
  "ignored_tag_types (emit ev s) = ignored_tag_types s"
  "element_cache (emit ev s) = element_cache s"
  by (simp_all add: emit_def)

lemma emitted_append: "events s' = events s @ es \<Longrightarrow> emitted s s' = es"
  by (simp add: emitted_def)

lemma adds_refl [simp]: "adds s s Q"
  by (simp add: adds_def)

lemma adds_emit: "Q ev \<Longrightarrow> adds s (emit ev s) Q"
  by (simp add: adds_def)

lemma adds_trans: "adds s s1 Q \<Longrightarrow> adds s1 s2 Q \<Longrightarrow> adds s s2 Q"
  unfolding adds_def by (elim exE conjE) (rule_tac x = "es @ esa" in exI, auto)

lemma adds_mono: "adds s s' Q \<Longrightarrow> (\<And>ev. Q ev \<Longrightarrow> R ev) \<Longrightarrow> adds s s' R"
  unfolding adds_def by blast

lemma adds_events_eq: "adds s s' Q \<Longrightarrow> events s1 = events s' \<Longrightarrow> adds s s1 Q"
  unfolding adds_def by simp

lemma adds_emitted:
  assumes "adds s s' Q"
  shows "events s' = events s @ emitted s s'" and "\<forall>ev\<in>set (emitted s s'). Q ev"
  using assms unfolding adds_def by (auto simp: emitted_append)

lemma tag_type_prompt_adds:
  assumes "tag_type_prompt h e s = (r, s')"
  shows "adds s s' (element_event h ts ids view e)"
  using assms
  by (auto simp: tag_type_prompt_def Let_def adds_def split: option.splits if_splits sum.splits)

lemma tag_type_prompt_frame:
  assumes "tag_type_prompt h e s = (r, s')"
  shows "doc_tags s' = doc_tags s \<and> next_id s' = next_id s \<and> tx s' = tx s
     \<and> ignored_tag_types s \<subseteq> ignored_tag_types s'"
  using assms
  by (auto simp: tag_type_prompt_def Let_def split: option.splits if_splits sum.splits)

lemma place_tag_adds:
  assumes "place_tag h ts view e s = (r, s')" "elem_Id e \<notin> ids"
  shows "adds s s' (element_event h ts ids view e)"
  using assms
  by (auto simp: place_tag_def delete_if_blank_def doc_Delete_def IndependentTag_Create_def Let_def
        adds_def split: option.splits if_splits sum.splits prod.splits bool.splits)

lemma place_tag_frame:
  assumes "place_tag h ts view e s = (r, s')"
  shows "tx s' = tx s \<and> ignored_tag_types s' = ignored_tag_types s"
  using assms
  by (auto simp: place_tag_def delete_if_blank_def doc_Delete_def IndependentTag_Create_def Let_def
           split: option.splits if_splits sum.splits prod.splits bool.splits)

lemma process_element_adds:
  assumes "process_element h ts ids view n idx e s = (r, s')"
  shows "adds s s' (element_event h ts ids view e)"
proof -
  let ?Q = "element_event h ts ids view e"
  let ?s0 = "emit (UpdateProgress idx n) s"
  have s0: "adds s ?s0 ?Q" by (rule adds_emit) simp
  show ?thesis
  proof (cases "elem_Id e \<in> ids \<or> skip_invisible h ts view e \<noteq> Inr False")
    case True
    with assms have "s' = ?s0"
      by (auto simp: process_element_def Let_def split: sum.splits bool.splits if_splits)
    with s0 show ?thesis by simp
  next
    case False
    obtain r1 s1 where p: "tag_type_prompt h e ?s0 = (r1, s1)"
      by (cases "tag_type_prompt h e ?s0")
    have s1: "adds s s1 ?Q" using s0 tag_type_prompt_adds [OF p] by (rule adds_trans)
    show ?thesis
    proof (cases "r1 = Inr Proceed")
      case True
      with assms False p have pl: "place_tag h ts view e s1 = (r, s')"
        by (simp add: process_element_def Let_def)
      from False have "elem_Id e \<notin> ids" by simp
      from s1 place_tag_adds [OF pl this] show ?thesis by (rule adds_trans)
    next
      case nP: False
      with assms False p have "s' = s1"
        by (auto simp: process_element_def Let_def split: sum.splits flow.splits)
      with s1 show ?thesis by simp
    qed
  qed
qed

lemma try_element_adds:
  assumes "try_element h ts ids view n idx e s = (r, s')"
  shows "adds s s' (element_event h ts ids view e)"
proof -
  let ?Q = "element_event h ts ids view e"
  obtain r1 s1 where p: "process_element h ts ids view n idx e s = (r1, s1)"
    by (cases "process_element h ts ids view n idx e s")
  note s1 = process_element_adds [OF p]
  show ?thesis
  proof (cases "\<exists>m. r1 = Inl (Exception m)")
    case True
    then obtain m where m: "r1 = Inl (Exception m)" ..
    with assms p have "s' = emit (Print (ErrorProcessingElement (elem_Id e) m)) s1"
      by (simp add: try_element_def)
    moreover have "adds s1 (emit (Print (ErrorProcessingElement (elem_Id e) m)) s1) ?Q"
      by (rule adds_emit) simp
    ultimately show ?thesis using s1 adds_trans by blast
  next
    case False
    with assms p have "s' = s1"
      by (auto simp: try_element_def split: sum.splits exc.splits)
    with s1 show ?thesis by simp
  qed
qed

lemma tag_loop_adds:
  "tag_loop h ts ids view n idx els s = (r, s') \<Longrightarrow>
   adds s s' (\<lambda>ev. \<exists>e\<in>set els. element_event h ts ids view e ev)"
proof (induction els arbitrary: idx s)
  case Nil
  then show ?case by simp
next
  case (Cons e els)
  let ?Q = "\<lambda>ev. \<exists>e\<in>set (e # els). element_event h ts ids view e ev"
  obtain r1 s1 where t: "try_element h ts ids view n idx e s = (r1, s1)"
    by (cases "try_element h ts ids view n idx e s")
  have s1: "adds s s1 ?Q"
    by (rule adds_mono [OF try_element_adds [OF t]]) simp
  show ?case
  proof (cases "\<exists>f. r1 = Inr f \<and> f \<noteq> Return")
    case True
    with Cons.prems t have "tag_loop h ts ids view n (Suc idx) els s1 = (r, s')"
      by (auto split: flow.splits)
    from Cons.IH [OF this] have "adds s1 s' ?Q"
      by (rule adds_mono) simp
    with s1 show ?thesis by (rule adds_trans)
  next
    case False
    with Cons.prems t have "s' = s1"
      by (auto split: sum.splits flow.splits)
    with s1 show ?thesis by simp
  qed
qed

lemma already_tagged_ids:
  "fst (already_tagged v tags ids s) = ids \<union> (\<Union>t\<in>set tags. tag_covers v t)"
proof (induction tags arbitrary: ids s)
  case Nil
  show ?case by simp
next
  case (Cons t tags)
  show ?case
  proof (cases "v \<le> 2021")
    case True
    then show ?thesis
      by (cases "GetTaggedLocalElement t")
         (auto simp: Cons.IH tag_covers_def split: option.splits)
  next
    case False
    then show ?thesis
      by (cases "GetTaggedLocalElements t") (auto simp: Cons.IH tag_covers_def)
  qed
qed


lemma already_tagged_state_indep:
  "fst (already_tagged v tags ids s) = fst (already_tagged v tags ids s0)"
  unfolding already_tagged_ids ..

lemma already_tagged_adds:
  "already_tagged v tags ids s = (ids', s') \<Longrightarrow>
   adds s s' (\<lambda>ev. \<exists>m. ev = Print (ErrorProcessingTag m))"
proof (induction tags arbitrary: ids s)
  case Nil
  then show ?case by simp
next
  case (Cons t tags)
  let ?Q = "\<lambda>ev. \<exists>m. ev = Print (ErrorProcessingTag m)"
  have e: "adds s (emit (Print (ErrorProcessingTag m)) s) ?Q" for m
    by (rule adds_emit) simp
  obtain ids1 s1 where step: "already_tagged v tags ids1 s1 = (ids', s')" "adds s s1 ?Q"
    using Cons.prems e
    by (cases "GetTaggedLocalElement t"; cases "GetTaggedLocalElements t")
       (auto split: if_splits option.splits)
  from step(2) Cons.IH [OF step(1)] show ?case by (rule adds_trans)
qed

lemma already_tagged_frame:
  "already_tagged v tags ids s = (ids', s') \<Longrightarrow>
   doc_tags s' = doc_tags s \<and> next_id s' = next_id s \<and> tx s' = tx s \<and>
   ignored_tag_types s' = ignored_tag_types s"
proof (induction tags arbitrary: ids s)
  case Nil
  then show ?case by simp
next
  case (Cons t tags)
  obtain ids1 s1 where step: "already_tagged v tags ids1 s1 = (ids', s')"
    "doc_tags s1 = doc_tags s \<and> next_id s1 = next_id s \<and> tx s1 = tx s \<and>
     ignored_tag_types s1 = ignored_tag_types s"
    using Cons.prems
    by (cases "GetTaggedLocalElement t"; cases "GetTaggedLocalElements t")
       (auto split: if_splits option.splits)
  from Cons.IH [OF step(1)] step(2) show ?case by simp
qed


lemma existing_tags_emit [simp]: "existing_tags view (emit ev s) = existing_tags view s"
  by (simp add: existing_tags_def)

lemma tag_elements_in_view_adds:
  assumes "tag_elements_in_view h view els s = (r, s')"
  shows "adds s s' (view_event h view els s)"
proof (cases "get_revit_version h")
  case (Inl x)
  with assms show ?thesis by (simp add: tag_elements_in_view_def)
next
  case (Inr v)
  let ?Q = "view_event h view els s"
  let ?s1 = "emit (Print (RunningOnVersion v)) s"
  let ?s2 = "emit LoadToggleSettings ?s1"
  have "adds s ?s1 ?Q" by (rule adds_emit) (simp add: view_event_def)
  moreover have "adds ?s1 ?s2 ?Q" by (rule adds_emit) (simp add: view_event_def)
  ultimately have s2: "adds s ?s2 ?Q" by (rule adds_trans)
  show ?thesis
  proof (cases "load_toggle_settings h (events ?s1)")
    case (Inl m)
    with assms Inr have "s' = ?s2" by (auto simp: tag_elements_in_view_def Let_def)
    with s2 show ?thesis by simp
  next
    case ts: (Inr ts)
    obtain ids s3 where a: "already_tagged v (existing_tags view s) {} ?s2 = (ids, s3)"
      by (cases "already_tagged v (existing_tags view s) {} ?s2")
    have "ids = fst (already_tagged v (existing_tags view s) {} ?s2)" using a by simp
    also have "\<dots> = fst (already_tagged v (existing_tags view s) {} s)"
      by (rule already_tagged_state_indep)
    also have "\<dots> = covered_ids h view s"
      by (simp add: covered_ids_def Inr)
    finally have ids: "ids = covered_ids h view s" .
    have "adds ?s2 s3 ?Q"
      by (rule adds_mono [OF already_tagged_adds [OF a]]) (auto simp: view_event_def)
    with s2 have s3: "adds s s3 ?Q" by (rule adds_trans)
    from assms Inr ts a have l: "tag_loop h ts ids view (length els) 0 els s3 = (r, s')"
      by (simp add: tag_elements_in_view_def Let_def)
    have vs: "view_settings h s = Inr ts"
      using Inr ts by (simp add: view_settings_def)
    have "adds s3 s' ?Q"
      by (rule adds_mono [OF tag_loop_adds [OF l]]) (auto simp: view_event_def ids vs)
    with s3 show ?thesis by (rule adds_trans)
  qed
qed

subsection \<open>Unfolding for concrete runs\<close>

lemmas step_defs =
  process_element_def try_element_def skip_invisible_def is_element_visible_in_view_def
  tag_type_prompt_def is_tag_type_loaded_def place_tag_def get_projected_center_point_def
  windows_in_plan_def IndependentTag_Create_def delete_if_blank_def doc_Delete_def strip_def
  double_simps

lemmas view_defs =
  tag_elements_in_view_def get_revit_version_def existing_tags_def

lemmas data_defs =
  host0_def state0_def state1_def tag0_def doors_def windows_def box0_def door1_def door2_def
  window1_def boxless_def level1_def level2_def toggles_off_def toggles_on_def

lemma run_window1:
  "tag_elements_in_view host1 level1 [window1] state0 =
    (Inr (), state0\<lparr>
       doc_tags := [\<lparr>tag_Id = 1000, OwnerViewId = 1, GetTaggedLocalElement = Inr (Some 201),
                     GetTaggedLocalElements = Inr [201], HasLeader = True,
                     tag_Mode = TM_ADDBY_CATEGORY, tag_Orientation = Horizontal,
                     TagHeadPosition = \<lparr>xyz_X = Finite 1, xyz_Y = Finite 2, xyz_Z = Finite 3\<rparr>, TagText = ''D''\<rparr>],
       next_id := 1001,
       events := [Print (RunningOnVersion 2024), LoadToggleSettings, UpdateProgress 0 1,
                  Create 1 window1 True TM_ADDBY_CATEGORY Horizontal \<lparr>xyz_X = Finite 1, xyz_Y = Finite 2, xyz_Z = Finite 3\<rparr>]\<rparr>)"
  by (simp add: view_defs step_defs host1_def data_defs emit_def Let_def)

subsection \<open>What the guard lets through\<close>

lemma try_element_no_Exception: "fst (try_element h ts ids view n idx e s) \<noteq> Inl (Exception m)"
  by (auto simp: try_element_def split: prod.splits sum.splits exc.splits)

lemma tag_loop_no_Exception: "fst (tag_loop h ts ids view n idx els s) \<noteq> Inl (Exception m)"
proof (induction els arbitrary: idx s)
  case Nil
  show ?case by simp
next
  case (Cons e els)
  obtain r1 s1 where t: "try_element h ts ids view n idx e s = (r1, s1)"
    by (cases "try_element h ts ids view n idx e s")
  from try_element_no_Exception [of h ts ids view n idx e s m] t
  have "r1 \<noteq> Inl (Exception m)" by simp
  with t Cons.IH show ?case
    by (auto split: sum.splits flow.splits)
qed

lemma process_element_no_box:
  assumes "get_BoundingBox e = Inr None" "process_element h ts ids view n idx e s = (r, s')"
  shows "doc_tags s' = doc_tags s"
proof -
  have pl: "place_tag h ts view e s1 = (Inr Continue, s1)" for s1
    using assms(1) by (simp add: place_tag_def get_projected_center_point_def)
  obtain r1 s1 where p: "tag_type_prompt h e (emit (UpdateProgress idx n) s) = (r1, s1)"
    by (cases "tag_type_prompt h e (emit (UpdateProgress idx n) s)")
  from tag_type_prompt_frame [OF p] have "doc_tags s1 = doc_tags s" by simp
  with assms(2) p pl show ?thesis
    by (auto simp: process_element_def Let_def split: if_splits sum.splits bool.splits flow.splits)
qed

lemma windows_in_plan_Inr:
  assumes "windows_in_plan ts view e = Inr leader"
  shows "\<exists>c. elem_Category e = Some c \<and>
     (leader \<longleftrightarrow> cat_Name c = ''Windows'' \<and> view_Type view = FloorPlan \<and>
        ts ''tag_windows_in_plan'' = Some True)"
  using assms by (auto simp: windows_in_plan_def split: option.splits if_splits)

subsection \<open>The shape of the trace of one element\<close>

lemma progress_indices_append [simp]:
  "progress_indices (xs @ ys) = progress_indices xs @ progress_indices ys"
  by (induction xs rule: progress_indices.induct) simp_all

lemma create_calls_append [simp]:
  "create_calls (xs @ ys) = create_calls xs @ create_calls ys"
  by (induction xs rule: create_calls.induct) simp_all

lemma quiet_progress [simp]: "\<forall>ev\<in>set es. quiet ev \<Longrightarrow> progress_indices es = []"
  by (induction es rule: progress_indices.induct) simp_all

lemma quiet_create [simp]: "\<forall>ev\<in>set es. quiet ev \<Longrightarrow> create_calls es = []"
  by (induction es rule: create_calls.induct) simp_all

lemma tag_type_prompt_quiet:
  assumes "tag_type_prompt h e s = (r, s')"
  shows "adds s s' quiet"
  using assms
  by (auto simp: tag_type_prompt_def Let_def adds_def split: option.splits if_splits sum.splits)

lemma delete_if_blank_quiet:
  assumes "delete_if_blank h ts tag s = (r, s')"
  shows "adds s s' quiet \<and> r \<noteq> Inl SystemExit \<and> r \<noteq> Inr Return \<and>
         ignored_tag_types s' = ignored_tag_types s"
  using assms
  by (auto simp: delete_if_blank_def doc_Delete_def Let_def adds_def
        split: option.splits if_splits sum.splits)

lemma place_tag_shape:
  assumes "place_tag h ts view e s = (r, s')"
  shows "r \<noteq> Inl SystemExit \<and> r \<noteq> Inr Return \<and> ignored_tag_types s' = ignored_tag_types s \<and>
     progress_indices (emitted s s') = [] \<and> events s' = events s @ emitted s s' \<and>
     (case (get_projected_center_point h e, windows_in_plan ts view e) of
        (Inr (Some p), Inr l) \<Rightarrow>
           \<exists>es. events s' = events s @ Create (view_Id view) e l TM_ADDBY_CATEGORY Horizontal p # es
              \<and> (\<forall>ev\<in>set es. quiet ev)
      | _ \<Rightarrow> s' = s)"
proof (cases "get_projected_center_point h e")
  case (Inl x)
  with assms show ?thesis
    by (auto simp: place_tag_def get_projected_center_point_def emitted_def split: sum.splits option.splits)
next
  case (Inr po)
  show ?thesis
  proof (cases po)
    case None
    with assms Inr show ?thesis by (auto simp: place_tag_def emitted_def)
  next
    case (Some p)
    show ?thesis
    proof (cases "windows_in_plan ts view e")
      case wl: (Inl x)
      with assms Inr Some show ?thesis
        by (auto simp: place_tag_def windows_in_plan_def emitted_def split: option.splits if_splits)
    next
      case wr: (Inr l)
      let ?c = "IndependentTag_Create h (view_Id view) e l TM_ADDBY_CATEGORY Horizontal p s"
      obtain rc sc where c: "?c = (rc, sc)" by (cases ?c)
      have sc: "events sc = events s @ [Create (view_Id view) e l TM_ADDBY_CATEGORY Horizontal p]"
        "ignored_tag_types sc = ignored_tag_types s"
        using c by (auto simp: IndependentTag_Create_def Let_def split: option.splits)
      have rc: "rc \<noteq> Inl SystemExit"
        using c by (auto simp: IndependentTag_Create_def Let_def split: option.splits)
      from assms Inr Some wr c have pl:
        "(case rc of Inl x \<Rightarrow> (Inl x, sc) | Inr tag \<Rightarrow> delete_if_blank h ts tag sc) = (r, s')"
        by (cases l) (simp_all add: place_tag_def)
      have "r \<noteq> Inl SystemExit \<and> r \<noteq> Inr Return \<and> ignored_tag_types s' = ignored_tag_types s \<and>
            adds sc s' quiet"
      proof (cases rc)
        case (Inl x)
        with pl rc sc show ?thesis by auto
      next
        case (Inr tag)
        with pl have "delete_if_blank h ts tag sc = (r, s')" by simp
        from delete_if_blank_quiet [OF this] sc show ?thesis by simp
      qed
      then obtain es where es: "events s' = events sc @ es" "\<forall>ev\<in>set es. quiet ev"
        and rest: "r \<noteq> Inl SystemExit" "r \<noteq> Inr Return" "ignored_tag_types s' = ignored_tag_types s"
        by (auto simp: adds_def)
      from es sc have "events s' = events s @ Create (view_Id view) e l TM_ADDBY_CATEGORY Horizontal p # es"
        by simp
      with es(2) rest Inr Some wr show ?thesis by (simp add: emitted_def)
    qed
  qed
qed

lemma tag_type_prompt_result:
  assumes "tag_type_prompt h e s = (r, s')"
  shows "ignored_tag_types s \<subseteq> ignored_tag_types s'"
    and "prompt_goes_on h \<Longrightarrow> r \<noteq> Inl SystemExit \<and> r \<noteq> Inr Return"
    and "r \<noteq> Inr Continue"
  using assms
  by (auto simp: tag_type_prompt_def Let_def prompt_goes_on_def
        split: option.splits if_splits sum.splits)

lemma tag_type_prompt_no_prompt:
  assumes "elem_Category e = Some c" "is_tag_type_loaded h (cat_Id c) \<or> cat_Id c \<in> ignored_tag_types s"
  shows "tag_type_prompt h e s = (Inr Proceed, s)"
  using assms by (auto simp: tag_type_prompt_def)

lemma skip_invisible_not_exit: "skip_invisible h ts view e \<noteq> Inl SystemExit"
  by (auto simp: skip_invisible_def is_element_visible_in_view_def
        split: option.splits bool.splits sum.splits)

lemma process_element_shape:
  assumes "process_element h ts ids view n idx e s = (r, s')"
  shows "(\<exists>es. events s' = events s @ UpdateProgress idx n # es \<and> progress_indices es = []) \<and>
    ignored_tag_types s \<subseteq> ignored_tag_types s' \<and>
    (prompt_goes_on h \<longrightarrow> r \<noteq> Inl SystemExit \<and> r \<noteq> Inr Return)"
proof -
  let ?s0 = "emit (UpdateProgress idx n) s"
  show ?thesis
  proof (cases "elem_Id e \<in> ids \<or> skip_invisible h ts view e \<noteq> Inr False")
    case True
    with assms skip_invisible_not_exit [of h ts view e]
    have "s' = ?s0 \<and> r \<noteq> Inl SystemExit \<and> r \<noteq> Inr Return"
      by (auto simp: process_element_def Let_def split: sum.splits bool.splits if_splits)
    then show ?thesis by simp
  next
    case False
    obtain r1 s1 where p: "tag_type_prompt h e ?s0 = (r1, s1)"
      by (cases "tag_type_prompt h e ?s0")
    from tag_type_prompt_quiet [OF p] obtain es1 where
      es1: "events s1 = events s @ UpdateProgress idx n # es1" "\<forall>ev\<in>set es1. quiet ev"
      by (auto simp: adds_def)
    have pe: "progress_indices es1 = []" using es1(2) by simp
    have ig1: "ignored_tag_types s \<subseteq> ignored_tag_types s1"
      using tag_type_prompt_result(1) [OF p] by simp
    show ?thesis
    proof (cases "r1 = Inr Proceed")
      case True
      with assms False p have pl: "place_tag h ts view e s1 = (r, s')"
        by (simp add: process_element_def Let_def)
      from place_tag_shape [OF pl] have sh:
        "r \<noteq> Inl SystemExit" "r \<noteq> Inr Return" "ignored_tag_types s' = ignored_tag_types s1"
        "progress_indices (emitted s1 s') = []" "events s' = events s1 @ emitted s1 s'"
        by simp_all
      from sh(5) es1(1) have "events s' = events s @ UpdateProgress idx n # (es1 @ emitted s1 s')"
        by simp
      moreover have "progress_indices (es1 @ emitted s1 s') = []" using pe sh(4) by simp
      ultimately have "\<exists>es. events s' = events s @ UpdateProgress idx n # es \<and> progress_indices es = []"
        by blast
      with sh(1,2,3) ig1 show ?thesis by simp
    next
      case nP: False
      with assms False p have eq: "s' = s1" "r = r1"
        by (auto simp: process_element_def Let_def split: sum.splits flow.splits)
      from es1(1) pe eq have "\<exists>es. events s' = events s @ UpdateProgress idx n # es \<and> progress_indices es = []"
        by blast
      with ig1 eq tag_type_prompt_result(2) [OF p] show ?thesis by simp
    qed
  qed
qed

lemma try_element_shape:
  assumes "try_element h ts ids view n idx e s = (r, s')"
  shows "(\<exists>es. events s' = events s @ UpdateProgress idx n # es \<and> progress_indices es = []) \<and>
    ignored_tag_types s \<subseteq> ignored_tag_types s' \<and>
    (prompt_goes_on h \<longrightarrow> (\<exists>f. r = Inr f \<and> f \<noteq> Return))"
proof -
  obtain r1 s1 where p: "process_element h ts ids view n idx e s = (r1, s1)"
    by (cases "process_element h ts ids view n idx e s")
  from process_element_shape [OF p] obtain es where es:
    "events s1 = events s @ UpdateProgress idx n # es" "progress_indices es = []"
    and ig: "ignored_tag_types s \<subseteq> ignored_tag_types s1"
    and go: "prompt_goes_on h \<longrightarrow> r1 \<noteq> Inl SystemExit \<and> r1 \<noteq> Inr Return"
    by blast
  show ?thesis
  proof (cases "\<exists>m. r1 = Inl (Exception m)")
    case True
    then obtain m where m: "r1 = Inl (Exception m)" ..
    with assms p have eq: "s' = emit (Print (ErrorProcessingElement (elem_Id e) m)) s1"
      "r = Inr Continue" by (simp_all add: try_element_def)
    from es eq have "events s' = events s @ UpdateProgress idx n # (es @ [Print (ErrorProcessingElement (elem_Id e) m)])"
      "progress_indices (es @ [Print (ErrorProcessingElement (elem_Id e) m)]) = []" by simp_all
    then have "\<exists>es. events s' = events s @ UpdateProgress idx n # es \<and> progress_indices es = []"
      by blast
    with ig eq show ?thesis by simp
  next
    case False
    with assms p have eq: "s' = s1" "r = r1"
      by (auto simp: try_element_def split: sum.splits exc.splits)
    have "prompt_goes_on h \<longrightarrow> (\<exists>f. r1 = Inr f \<and> f \<noteq> Return)"
    proof
      assume "prompt_goes_on h"
      with go have "r1 \<noteq> Inl SystemExit" "r1 \<noteq> Inr Return" by simp_all
      with False show "\<exists>f. r1 = Inr f \<and> f \<noteq> Return"
        by (cases r1) (auto, metis exc.exhaust)
    qed
    with es ig eq show ?thesis by blast
  qed
qed

lemma tag_loop_visits_all:
  assumes "prompt_goes_on h"
  shows "tag_loop h ts ids view n idx els s = (r, s') \<Longrightarrow>
     r = Inr () \<and> progress_indices (emitted s s') = [idx..<idx + length els] \<and>
     events s' = events s @ emitted s s'"
proof (induction els arbitrary: idx s)
  case Nil
  then show ?case by (simp add: emitted_def)
next
  case (Cons e els)
  obtain r1 s1 where t: "try_element h ts ids view n idx e s = (r1, s1)"
    by (cases "try_element h ts ids view n idx e s")
  from try_element_shape [OF t] assms obtain es f where
    es: "events s1 = events s @ UpdateProgress idx n # es" "progress_indices es = []"
    and f: "r1 = Inr f" "f \<noteq> Return" by blast
  with Cons.prems t have l: "tag_loop h ts ids view n (Suc idx) els s1 = (r, s')"
    by (auto split: flow.splits)
  from Cons.IH [OF l] have ih: "r = Inr ()"
    "progress_indices (emitted s1 s') = [Suc idx..<Suc idx + length els]"
    "events s' = events s1 @ emitted s1 s'" by simp_all
  from ih(3) es have ev: "events s' = events s @ (UpdateProgress idx n # es @ emitted s1 s')"
    by simp
  then have em: "emitted s s' = UpdateProgress idx n # es @ emitted s1 s'"
    by (rule emitted_append)
  have "progress_indices (emitted s s') = idx # [Suc idx..<Suc idx + length els]"
    unfolding em using es(2) ih(2) by simp
  also have "\<dots> = [idx..<idx + length (e # els)]"
    using upt_conv_Cons [of idx "idx + length (e # els)"] by simp
  finally show ?case using ih(1) ev em by simp
qed

subsection \<open>Blank labels and deletions\<close>

lemma strip_empty: "strip h text = [] \<longleftrightarrow> blank h text"
proof -
  let ?P = "isspace h"
  have "strip h text = [] \<longleftrightarrow> (\<forall>c\<in>set (dropWhile ?P text). ?P c)"
    by (simp add: strip_def)
  also have "\<dots> \<longleftrightarrow> dropWhile ?P text = []"
  proof
    assume a: "\<forall>c\<in>set (dropWhile ?P text). ?P c"
    show "dropWhile ?P text = []"
    proof (rule ccontr)
      assume "dropWhile ?P text \<noteq> []"
      then have "\<not> ?P (hd (dropWhile ?P text))" by (rule hd_dropWhile)
      moreover from \<open>dropWhile ?P text \<noteq> []\<close> have "hd (dropWhile ?P text) \<in> set (dropWhile ?P text)"
        by simp
      ultimately show False using a by blast
    qed
  next
    assume d: "dropWhile ?P text = []"
    show "\<forall>c\<in>set (dropWhile ?P text). ?P c" unfolding d by simp
  qed
  also have "\<dots> \<longleftrightarrow> blank h text"
    by (simp add: blank_def)
  finally show ?thesis .
qed

lemma place_tag_keeps:
  assumes "get_projected_center_point h e = Inr (Some p)"
      and "windows_in_plan ts view e = Inr l"
      and "create_fails h (view_Id view) e = None"
      and "ts ''check_blank_tag'' = Some b"
      and "\<not> (b \<and> blank h (created_TagText h (view_Id view) e))"
  shows "place_tag h ts view e s =
     (Inr Proceed,
      emit (Create (view_Id view) e l TM_ADDBY_CATEGORY Horizontal p) s
        \<lparr>doc_tags := doc_tags s @ [created_tag h (view_Id view) e l p (next_id s)],
         next_id := next_id s + 1\<rparr>)"
  using assms
  by (cases l)
     (auto simp: place_tag_def IndependentTag_Create_def delete_if_blank_def Let_def created_tag_def
        strip_empty)

lemma place_tag_deletes:
  assumes "get_projected_center_point h e = Inr (Some p)"
      and "windows_in_plan ts view e = Inr l"
      and "create_fails h (view_Id view) e = None"
      and "ts ''check_blank_tag'' = Some True"
      and "blank h (created_TagText h (view_Id view) e)"
      and "delete_fails h (next_id s) = None"
  shows "place_tag h ts view e s =
     (Inr Proceed,
      emit (Delete (next_id s)) (emit (Create (view_Id view) e l TM_ADDBY_CATEGORY Horizontal p) s)
        \<lparr>doc_tags := filter (\<lambda>t. tag_Id t \<noteq> next_id s) (doc_tags s),
         next_id := next_id s + 1\<rparr>)"
  using assms
  by (cases l)
     (auto simp: place_tag_def IndependentTag_Create_def delete_if_blank_def doc_Delete_def Let_def
        strip_empty emit_def)

lemma place_tag_tags:
  assumes "place_tag h ts view e s = (r, s')"
  shows "(ts ''check_blank_tag'' = Some True \<and> (\<forall>i. delete_fails h i = None) \<longrightarrow>
            (\<forall>t\<in>set (doc_tags s'). t \<in> set (doc_tags s) \<or> \<not> blank h (TagText t))) \<and>
         (ts ''check_blank_tag'' = Some False \<longrightarrow>
            adds s s' no_delete \<and> set (doc_tags s) \<subseteq> set (doc_tags s'))"
  using assms
  by (auto simp: place_tag_def IndependentTag_Create_def delete_if_blank_def doc_Delete_def Let_def
        strip_empty adds_def no_delete_def
        split: sum.splits option.splits if_splits prod.splits bool.splits)

lemma tag_type_prompt_events:
  assumes "tag_type_prompt h e s = (r, s')"
  shows "adds s s' no_delete \<and> doc_tags s' = doc_tags s"
  using assms
  by (auto simp: tag_type_prompt_def Let_def adds_def no_delete_def
        split: option.splits if_splits sum.splits)

lemma blank_rule_refl [simp]: "blank_rule h ts s s"
  by (simp add: blank_rule_def)

lemma blank_rule_trans: "blank_rule h ts s s1 \<Longrightarrow> blank_rule h ts s1 s2 \<Longrightarrow> blank_rule h ts s s2"
  unfolding blank_rule_def by (blast intro: adds_trans)

lemma blank_rule_same_tags:
  "adds s s' no_delete \<Longrightarrow> doc_tags s' = doc_tags s \<Longrightarrow> blank_rule h ts s s'"
  by (simp add: blank_rule_def)

lemma blank_rule_emit: "no_delete ev \<Longrightarrow> blank_rule h ts s (emit ev s)"
  by (rule blank_rule_same_tags) (simp_all add: adds_emit)

lemma process_element_blank_rule:
  assumes "process_element h ts ids view n idx e s = (r, s')"
  shows "blank_rule h ts s s'"
proof -
  let ?s0 = "emit (UpdateProgress idx n) s"
  have s0: "blank_rule h ts s ?s0" by (rule blank_rule_emit) (simp add: no_delete_def)
  show ?thesis
  proof (cases "elem_Id e \<in> ids \<or> skip_invisible h ts view e \<noteq> Inr False")
    case True
    with assms have "s' = ?s0"
      by (auto simp: process_element_def Let_def split: sum.splits bool.splits if_splits)
    with s0 show ?thesis by simp
  next
    case False
    obtain r1 s1 where p: "tag_type_prompt h e ?s0 = (r1, s1)"
      by (cases "tag_type_prompt h e ?s0")
    from tag_type_prompt_events [OF p] have "blank_rule h ts ?s0 s1"
      by (simp add: blank_rule_same_tags)
    with s0 have s1: "blank_rule h ts s s1" by (rule blank_rule_trans)
    show ?thesis
    proof (cases "r1 = Inr Proceed")
      case True
      with assms False p have pl: "place_tag h ts view e s1 = (r, s')"
        by (simp add: process_element_def Let_def)
      from place_tag_tags [OF pl] have "blank_rule h ts s1 s'" by (simp add: blank_rule_def)
      with s1 show ?thesis by (rule blank_rule_trans)
    next
      case nP: False
      with assms False p have "s' = s1"
        by (auto simp: process_element_def Let_def split: sum.splits flow.splits)
      with s1 show ?thesis by simp
    qed
  qed
qed

lemma try_element_blank_rule:
  assumes "try_element h ts ids view n idx e s = (r, s')"
  shows "blank_rule h ts s s'"
proof -
  obtain r1 s1 where p: "process_element h ts ids view n idx e s = (r1, s1)"
    by (cases "process_element h ts ids view n idx e s")
  note s1 = process_element_blank_rule [OF p]
  show ?thesis
  proof (cases "\<exists>m. r1 = Inl (Exception m)")
    case True
    then obtain m where m: "r1 = Inl (Exception m)" ..
    with assms p have "s' = emit (Print (ErrorProcessingElement (elem_Id e) m)) s1"
      by (simp add: try_element_def)
    moreover have "blank_rule h ts s1 (emit (Print (ErrorProcessingElement (elem_Id e) m)) s1)"
      by (rule blank_rule_emit) (simp add: no_delete_def)
    ultimately show ?thesis using s1 blank_rule_trans by blast
  next
    case False
    with assms p have "s' = s1"
      by (auto simp: try_element_def split: sum.splits exc.splits)
    with s1 show ?thesis by simp
  qed
qed

lemma tag_loop_blank_rule:
  "tag_loop h ts ids view n idx els s = (r, s') \<Longrightarrow> blank_rule h ts s s'"
proof (induction els arbitrary: idx s)
  case Nil
  then show ?case by simp
next
  case (Cons e els)
  obtain r1 s1 where t: "try_element h ts ids view n idx e s = (r1, s1)"
    by (cases "try_element h ts ids view n idx e s")
  note s1 = try_element_blank_rule [OF t]
  show ?case
  proof (cases "\<exists>f. r1 = Inr f \<and> f \<noteq> Return")
    case True
    with Cons.prems t have "tag_loop h ts ids view n (Suc idx) els s1 = (r, s')"
      by (auto split: flow.splits)
    from s1 Cons.IH [OF this] show ?thesis by (rule blank_rule_trans)
  next
    case False
    with Cons.prems t have "s' = s1"
      by (auto split: sum.splits flow.splits)
    with s1 show ?thesis by simp
  qed
qed

lemma tag_elements_in_view_blank_rule:
  assumes "view_settings h s = Inr ts"
      and "tag_elements_in_view h view els s = (r, s')"
  shows "blank_rule h ts s s'"
proof -
  from assms(1) obtain v where v: "get_revit_version h = Inr v"
    and ts: "load_toggle_settings h (events s @ [Print (RunningOnVersion v)]) = Inr ts"
    by (auto simp: view_settings_def split: sum.splits)
  let ?s1 = "emit (Print (RunningOnVersion v)) s"
  let ?s2 = "emit LoadToggleSettings ?s1"
  have "blank_rule h ts s ?s1" by (rule blank_rule_emit) (simp add: no_delete_def)
  moreover have "blank_rule h ts ?s1 ?s2" by (rule blank_rule_emit) (simp add: no_delete_def)
  ultimately have s2: "blank_rule h ts s ?s2" by (rule blank_rule_trans)
  obtain ids s3 where a: "already_tagged v (existing_tags view s) {} ?s2 = (ids, s3)"
    by (cases "already_tagged v (existing_tags view s) {} ?s2")
  have "adds ?s2 s3 no_delete"
    by (rule adds_mono [OF already_tagged_adds [OF a]]) (auto simp: no_delete_def)
  moreover from already_tagged_frame [OF a] have "doc_tags s3 = doc_tags ?s2" by simp
  ultimately have "blank_rule h ts ?s2 s3" by (rule blank_rule_same_tags)
  with s2 have s3: "blank_rule h ts s s3" by (rule blank_rule_trans)
  from assms(2) v ts a have l: "tag_loop h ts ids view (length els) 0 els s3 = (r, s')"
    by (simp add: tag_elements_in_view_def Let_def)
  from s3 tag_loop_blank_rule [OF l] show ?thesis by (rule blank_rule_trans)
qed

subsection \<open>The transaction and the loads of the settings\<close>

lemma load_count_append [simp]: "load_count (xs @ ys) = load_count xs + load_count ys"
  by (simp add: load_count_def)

lemma load_count_Cons [simp]:
  "load_count (ev # evs) = (if ev = LoadToggleSettings then 1 else 0) + load_count evs"
  by (simp add: load_count_def)

lemma load_count_Nil [simp]: "load_count [] = 0"
  by (simp add: load_count_def)

lemma after_load_count: "\<forall>ev\<in>set es. after_load ev \<Longrightarrow> load_count es = 0"
  by (induction es) (auto simp: after_load_def)

lemma element_event_after_load: "element_event h ts ids view e ev \<Longrightarrow> after_load ev"
  by (cases ev) (simp_all add: after_load_def no_tx_def)

lemma process_element_tx:
  assumes "process_element h ts ids view n idx e s = (r, s')"
  shows "tx s' = tx s"
proof -
  let ?s0 = "emit (UpdateProgress idx n) s"
  obtain r1 s1 where p: "tag_type_prompt h e ?s0 = (r1, s1)"
    by (cases "tag_type_prompt h e ?s0")
  from tag_type_prompt_frame [OF p] have t1: "tx s1 = tx s" by simp
  obtain r2 s2 where pl: "place_tag h ts view e s1 = (r2, s2)"
    by (cases "place_tag h ts view e s1")
  from place_tag_frame [OF pl] t1 have t2: "tx s2 = tx s" by simp
  from assms p pl t1 t2 show ?thesis
    by (auto simp: process_element_def Let_def split: if_splits sum.splits bool.splits flow.splits)
qed

lemma try_element_tx:
  assumes "try_element h ts ids view n idx e s = (r, s')"
  shows "tx s' = tx s"
proof -
  obtain r1 s1 where p: "process_element h ts ids view n idx e s = (r1, s1)"
    by (cases "process_element h ts ids view n idx e s")
  from process_element_tx [OF p] assms p show ?thesis
    by (auto simp: try_element_def split: sum.splits exc.splits)
qed

lemma tag_loop_tx:
  "tag_loop h ts ids view n idx els s = (r, s') \<Longrightarrow> tx s' = tx s"
proof (induction els arbitrary: idx s)
  case Nil
  then show ?case by simp
next
  case (Cons e els)
  obtain r1 s1 where t: "try_element h ts ids view n idx e s = (r1, s1)"
    by (cases "try_element h ts ids view n idx e s")
  note t1 = try_element_tx [OF t]
  show ?case
  proof (cases "\<exists>f. r1 = Inr f \<and> f \<noteq> Return")
    case True
    with Cons.prems t have "tag_loop h ts ids view n (Suc idx) els s1 = (r, s')"
      by (auto split: flow.splits)
    from Cons.IH [OF this] t1 show ?thesis by simp
  next
    case False
    with Cons.prems t have "s' = s1"
      by (auto split: sum.splits flow.splits)
    with t1 show ?thesis by simp
  qed
qed

text \<open>One call of the tagger: the trace, the transaction and the result.\<close>

lemma tag_elements_in_view_trace:
  assumes "tag_elements_in_view h view els s = (r, s')"
  shows "tx s' = tx s \<and>
    (case get_revit_version h of
       Inl x \<Rightarrow> s' = s \<and> r = Inl x
     | Inr v \<Rightarrow> \<exists>es. events s' = events s @ Print (RunningOnVersion v) # LoadToggleSettings # es \<and>
                  (\<forall>ev\<in>set es. after_load ev))"
proof (cases "get_revit_version h")
  case (Inl x)
  with assms show ?thesis by (auto simp: tag_elements_in_view_def)
next
  case (Inr v)
  let ?s1 = "emit (Print (RunningOnVersion v)) s"
  let ?s2 = "emit LoadToggleSettings ?s1"
  show ?thesis
  proof (cases "load_toggle_settings h (events ?s1)")
    case (Inl m)
    with assms Inr have "s' = ?s2" by (auto simp: tag_elements_in_view_def Let_def)
    with Inr show ?thesis by simp
  next
    case ts: (Inr ts)
    obtain ids s3 where a: "already_tagged v (existing_tags view s) {} ?s2 = (ids, s3)"
      by (cases "already_tagged v (existing_tags view s) {} ?s2")
    from already_tagged_adds [OF a] obtain es1 where
      es1: "events s3 = events ?s2 @ es1" "\<forall>ev\<in>set es1. \<exists>m. ev = Print (ErrorProcessingTag m)"
      by (auto simp: adds_def)
    from es1(2) have al1: "\<forall>ev\<in>set es1. after_load ev"
      by (auto simp: after_load_def no_tx_def)
    from already_tagged_frame [OF a] have t3: "tx s3 = tx s" by simp
    from assms Inr ts a have l: "tag_loop h ts ids view (length els) 0 els s3 = (r, s')"
      by (simp add: tag_elements_in_view_def Let_def)
    from tag_loop_adds [OF l] obtain es2 where
      es2: "events s' = events s3 @ es2"
           "\<forall>ev\<in>set es2. \<exists>e\<in>set els. element_event h ts ids view e ev"
      by (auto simp: adds_def)
    from es2(2) have al2: "\<forall>ev\<in>set es2. after_load ev"
      by (blast intro: element_event_after_load)
    have "events s' = events s @ Print (RunningOnVersion v) # LoadToggleSettings # (es1 @ es2)"
      using es1(1) es2(1) by simp
    moreover have "\<forall>ev\<in>set (es1 @ es2). after_load ev" using al1 al2 by auto
    ultimately have "\<exists>es. events s' = events s @ Print (RunningOnVersion v) # LoadToggleSettings # es \<and>
                  (\<forall>ev\<in>set es. after_load ev)" by blast
    with tag_loop_tx [OF l] t3 Inr show ?thesis by simp
  qed
qed

lemma tag_elements_in_view_loads:
  assumes "tag_elements_in_view h view els s = (Inr u, s')"
  shows "tx s' = tx s \<and> events s' = events s @ emitted s s' \<and>
         load_count (emitted s s') = 1 \<and> (\<forall>ev\<in>set (emitted s s'). no_tx ev)"
proof -
  from tag_elements_in_view_trace [OF assms] obtain v es where
    t: "tx s' = tx s"
    and es: "events s' = events s @ Print (RunningOnVersion v) # LoadToggleSettings # es"
        "\<forall>ev\<in>set es. after_load ev"
    by (cases "get_revit_version h") auto
  from es(1) have em: "emitted s s' = Print (RunningOnVersion v) # LoadToggleSettings # es"
    by (rule emitted_append)
  from es(2) have "load_count es = 0" by (rule after_load_count)
  moreover from es(2) have "\<forall>ev\<in>set es. no_tx ev" by (simp add: after_load_def)
  ultimately show ?thesis unfolding em using t es(1) by (simp add: no_tx_def)
qed

lemma tag_elements_in_view_no_tx:
  assumes "tag_elements_in_view h view els s = (r, s')"
  shows "tx s' = tx s \<and> adds s s' no_tx"
proof -
  have "adds s s' no_tx"
  proof (rule adds_mono [OF tag_elements_in_view_adds [OF assms]])
    fix ev assume "view_event h view els s ev"
    then show "no_tx ev"
      by (cases ev) (auto simp: view_event_def no_tx_def)
  qed
  with tag_elements_in_view_trace [OF assms] show ?thesis by simp
qed

lemma tag_views_no_tx:
  "tag_views h views els s = (r, s') \<Longrightarrow> tx s' = tx s \<and> adds s s' no_tx"
proof (induction views arbitrary: s)
  case Nil
  then show ?case by simp
next
  case (Cons v vs)
  obtain r1 s1 where t: "tag_elements_in_view h v els s = (r1, s1)"
    by (cases "tag_elements_in_view h v els s")
  from tag_elements_in_view_no_tx [OF t] have a: "tx s1 = tx s" "adds s s1 no_tx" by simp_all
  show ?case
  proof (cases r1)
    case (Inl x)
    with Cons.prems t have "s' = s1" by simp
    with a show ?thesis by simp
  next
    case (Inr u)
    with Cons.prems t have "tag_views h vs els s1 = (r, s')" by simp
    from Cons.IH [OF this] a show ?thesis by (auto intro: adds_trans)
  qed
qed

lemma tag_views_loads:
  "tag_views h views els s = (Inr u, s') \<Longrightarrow>
   events s' = events s @ emitted s s' \<and> load_count (emitted s s') = length views"
proof (induction views arbitrary: s)
  case Nil
  then show ?case by (simp add: emitted_def)
next
  case (Cons v vs)
  obtain r1 s1 where t: "tag_elements_in_view h v els s = (r1, s1)"
    by (cases "tag_elements_in_view h v els s")
  from Cons.prems t obtain u1 where r1: "r1 = Inr u1"
    by (cases r1) auto
  with Cons.prems t have tv: "tag_views h vs els s1 = (Inr u, s')" by simp
  from tag_elements_in_view_loads [OF t [unfolded r1]]
  have a: "events s1 = events s @ emitted s s1" "load_count (emitted s s1) = 1" by simp_all
  from Cons.IH [OF tv] have b: "events s' = events s1 @ emitted s1 s'"
    "load_count (emitted s1 s') = length vs" by simp_all
  have ev: "events s' = events s @ (emitted s s1 @ emitted s1 s')" using a(1) b(1) by simp
  then have em: "emitted s s' = emitted s s1 @ emitted s1 s'" by (rule emitted_append)
  show ?case unfolding em using ev a(2) b(2) by simp
qed

subsection \<open>The run\<close>

lemmas run_defs =
  tag_elements_in_selected_views_def Transaction_Start_def Transaction_Commit_def
  Transaction_RollBack_def

lemma selected_views_commit:
  assumes "tag_views h views els (Transaction_Start s) = (Inr u, s1)"
  shows "tag_elements_in_selected_views h views els s = (Inr (), Transaction_Commit s1)"
  using assms by (simp add: tag_elements_in_selected_views_def)

lemma tag_views_from_start:
  assumes "tag_views h views els (Transaction_Start s) = (r, s1)"
  shows "tx s1 = Started (doc_tags s) \<and>
    (\<exists>body. events s1 = events s @ TxStart # body \<and> (\<forall>ev\<in>set body. no_tx ev))"
proof -
  from tag_views_no_tx [OF assms] obtain body where
    "tx s1 = tx (Transaction_Start s)" "events s1 = events (Transaction_Start s) @ body"
    "\<forall>ev\<in>set body. no_tx ev"
    by (auto simp: adds_def)
  then show ?thesis by (auto simp: Transaction_Start_def)
qed

lemma run_cfg_fail:
  "tag_elements_in_selected_views host_cfg_fail [level1, level2] [door1] state0 =
    (Inl (Exception ''settings unreadable''),
     state0\<lparr>next_id := 1001, tx := RolledBack,
       events := [TxStart, Print (RunningOnVersion 2024), LoadToggleSettings, UpdateProgress 0 1,
                  Create 1 door1 False TM_ADDBY_CATEGORY Horizontal p0,
                  Print (RunningOnVersion 2024), LoadToggleSettings, TxRollBack]\<rparr>)"
  by (simp add: run_defs view_defs step_defs host_cfg_fail_def data_defs p0_def emit_def Let_def)

lemma run_two_views:
  "tag_elements_in_selected_views host0 [level1, level2] [door1] state0 =
    (Inr (),
     state0\<lparr>doc_tags := [created_tag host0 1 door1 False p0 1000, created_tag host0 2 door1 False p0 1001],
       next_id := 1002, tx := Committed,
       events := [TxStart, Print (RunningOnVersion 2024), LoadToggleSettings, UpdateProgress 0 1,
                  Create 1 door1 False TM_ADDBY_CATEGORY Horizontal p0,
                  Print (RunningOnVersion 2024), LoadToggleSettings, UpdateProgress 0 1,
                  Create 2 door1 False TM_ADDBY_CATEGORY Horizontal p0, TxCommit]\<rparr>)"
  by (simp add: run_defs view_defs step_defs data_defs p0_def created_tag_def emit_def Let_def)

subsection \<open>The selection stages\<close>

lemma select_categories_ok:
  assumes "select_categories h s = (Inr cats, s1)"
  shows "doc_tags s1 = doc_tags s \<and> tx s1 = tx s \<and> adds s s1 selection_trace"
  using assms
  by (auto simp: select_categories_def Let_def adds_def split: sum.splits option.splits)

lemma collect_elements_ok:
  "collect_elements h cats acc s = (els, s1) \<Longrightarrow>
   doc_tags s1 = doc_tags s \<and> tx s1 = tx s \<and> adds s s1 selection_trace"
proof (induction cats arbitrary: acc s)
  case Nil
  then show ?case by simp
next
  case (Cons c cats)
  let ?ce = "filter (\<lambda>el. map_option cat_Id (elem_Category el) = Some (cat_Id c)) (Elements h)"
  let ?s1 = "s\<lparr>element_cache := (element_cache s)(cat_Id c \<mapsto> ?ce)\<rparr>"
  let ?s2 = "emit (Print (CollectedElements (cat_Name c) (map elem_Id ?ce))) ?s1"
  from Cons.prems have "collect_elements h cats (acc @ ?ce) ?s2 = (els, s1)"
    by (simp add: Let_def)
  from Cons.IH [OF this] have a: "doc_tags s1 = doc_tags s" "tx s1 = tx s"
    "adds ?s2 s1 selection_trace" by simp_all
  have "adds s ?s2 selection_trace" by (simp add: adds_def)
  with a show ?case by (auto intro: adds_trans)
qed

lemma select_elements_ok:
  assumes "select_elements h cats s = (r, s1)"
  shows "doc_tags s1 = doc_tags s \<and> tx s1 = tx s \<and> adds s s1 selection_trace"
  using assms collect_elements_ok [of h cats "[]" s]
  by (auto simp: select_elements_def split: prod.splits)

lemma cancel_views_categories:
  "select_categories host_cancel_views state0 =
     (Inr [doors],
      state0\<lparr>events := [SelectFromList ''Select Categories to Tag'' [''Doors'', ''Windows''],
                          Print (SelectedCategories [''Doors''])]\<rparr>)"
  by (simp add: select_categories_def host_cancel_views_def data_defs emit_def Let_def)

lemma cancel_views_elements:
  "select_elements host_cancel_views [doors]
     (state0\<lparr>events := [SelectFromList ''Select Categories to Tag'' [''Doors'', ''Windows''],
                          Print (SelectedCategories [''Doors''])]\<rparr>) =
     (Inr [door1, door2, boxless],
      state0\<lparr>element_cache := [23 \<mapsto> [door1, door2, boxless]],
             events := [SelectFromList ''Select Categories to Tag'' [''Doors'', ''Windows''],
                        Print (SelectedCategories [''Doors'']),
                        Print (CollectedElements ''Doors'' [101, 102, 103])]\<rparr>)"
  by (simp add: select_elements_def host_cancel_views_def data_defs emit_def Let_def)

subsection \<open>Prompts and approved categories\<close>

lemma alert_rule_refl [simp]: "alert_rule s s"
  by (simp add: alert_rule_def)











subsection \<open>The element that is prompted for\<close>



subsection \<open>The covered identifiers, tag by tag\<close>

lemma covered_ids_tags:
  assumes "get_revit_version h = Inr v"
  shows "covered_ids h view s = (\<Union>t\<in>set (existing_tags view s). tag_covers v t)"
  using assms by (simp add: covered_ids_def already_tagged_ids)

lemma created_tag_covers: "tag_covers v (created_tag h vid e leader p i) = {elem_Id e}"
  by (simp add: tag_covers_def created_tag_def)

lemma run_door1:
  "tag_elements_in_view host0 level1 [door1] state0 =
    (Inr (), state0\<lparr>doc_tags := [created_tag host0 1 door1 False p0 1000], next_id := 1001,
       events := [Print (RunningOnVersion 2024), LoadToggleSettings, UpdateProgress 0 1,
                  Create 1 door1 False TM_ADDBY_CATEGORY Horizontal p0]\<rparr>)"
  by (simp add: view_defs step_defs data_defs p0_def created_tag_def emit_def Let_def)

subsection \<open>The script exit of the prompt\<close>

lemma tag_type_prompt_exit:
  assumes "tag_type_prompt h e s = (Inl SystemExit, s')"
  shows "\<exists>c. elem_Category e = Some c \<and> s' = emit (Alert c) s \<and>
     alert h (events s) (cat_Name c) = Inl SystemExit"
  using assms
  by (auto simp: tag_type_prompt_def Let_def split: option.splits if_splits sum.splits)

lemma process_element_exit:
  assumes "process_element h ts ids view n idx e s = (Inl SystemExit, s')"
  shows "\<exists>c. elem_Category e = Some c \<and> s' = emit (Alert c) (emit (UpdateProgress idx n) s) \<and>
     alert h (events s @ [UpdateProgress idx n]) (cat_Name c) = Inl SystemExit"
proof -
  let ?s0 = "emit (UpdateProgress idx n) s"
  obtain r1 s1 where p: "tag_type_prompt h e ?s0 = (r1, s1)"
    by (cases "tag_type_prompt h e ?s0")
  have f: "\<not> (elem_Id e \<in> ids \<or> skip_invisible h ts view e \<noteq> Inr False)"
  proof
    assume "elem_Id e \<in> ids \<or> skip_invisible h ts view e \<noteq> Inr False"
    with assms skip_invisible_not_exit [of h ts view e] show False
      by (auto simp: process_element_def Let_def split: sum.splits bool.splits if_splits)
  qed
  have np: "r1 \<noteq> Inr Proceed"
  proof
    assume "r1 = Inr Proceed"
    with assms f p have "place_tag h ts view e s1 = (Inl SystemExit, s')"
      by (simp add: process_element_def Let_def)
    from place_tag_shape [OF this] show False by simp
  qed
  with assms f p have "r1 = Inl SystemExit" "s1 = s'"
    by (auto simp: process_element_def Let_def split: sum.splits flow.splits)
  with p have "tag_type_prompt h e ?s0 = (Inl SystemExit, s')" by simp
  from tag_type_prompt_exit [OF this] show ?thesis by simp
qed

lemma try_element_exit:
  assumes "try_element h ts ids view n idx e s = (Inl SystemExit, s')"
  shows "\<exists>c. elem_Category e = Some c \<and> s' = emit (Alert c) (emit (UpdateProgress idx n) s) \<and>
     alert h (events s @ [UpdateProgress idx n]) (cat_Name c) = Inl SystemExit"
proof -
  from assms have "process_element h ts ids view n idx e s = (Inl SystemExit, s')"
    by (auto simp: try_element_def split: prod.splits sum.splits exc.splits)
  then show ?thesis by (rule process_element_exit)
qed

lemma try_element_stopped:
  assumes "try_element h ts ids view n idx e s = (Inl SystemExit, s')"
  shows "stopped_at_prompt h s'"
proof -
  from try_element_exit [OF assms] obtain c where
    c: "s' = emit (Alert c) (emit (UpdateProgress idx n) s)"
       "alert h (events s @ [UpdateProgress idx n]) (cat_Name c) = Inl SystemExit"
    by blast
  from c(1) have "events s' = (events s @ [UpdateProgress idx n]) @ [Alert c]" by simp
  with c(2) show ?thesis unfolding stopped_at_prompt_def by blast
qed





subsection \<open>A prompt that returns a boolean\<close>



subsection \<open>One tag for each occurrence of a candidate\<close>

lemma tags_for_Nil [simp]: "tags_for view [] []"
  by (simp add: tags_for_def)

lemma tags_for_append:
  "tags_for view es new \<Longrightarrow> tags_for view es' new' \<Longrightarrow> tags_for view (es @ es') (new @ new')"
  by (simp add: tags_for_def)

lemma tags_for_created: "tags_for view [e] [created_tag h (view_Id view) e l p i]"
  by (simp add: tags_for_def created_tag_def)

lemma new_tags_append: "doc_tags s' = doc_tags s @ new \<Longrightarrow> new_tags s s' = new"
  by (simp add: new_tags_def)

lemma tag_type_prompt_passes:
  assumes ok: "prompts_pass h s [e]"
      and run: "tag_type_prompt h e s = (r, s')"
  shows "(r = Inr Proceed \<or> elem_Category e = None) \<and> r \<noteq> Inl SystemExit \<and> r \<noteq> Inr Return"
proof (cases "elem_Category e")
  case None
  with run show ?thesis by (auto simp: tag_type_prompt_def)
next
  case (Some c)
  show ?thesis
  proof (cases "is_tag_type_loaded h (cat_Id c) \<or> cat_Id c \<in> ignored_tag_types s")
    case True
    from tag_type_prompt_no_prompt [OF Some True] run show ?thesis by simp
  next
    case False
    with ok Some obtain v where "alert h (events s) (cat_Name c) = Inr v" "v \<noteq> PyStr ''No''"
      unfolding prompts_pass_def by auto
    with run Some False show ?thesis by (auto simp: tag_type_prompt_def Let_def)
  qed
qed

lemma process_element_candidate:
  assumes ok: "prompts_pass h s [e]"
      and run: "process_element h ts ids view n idx e s = (r, s')"
  shows "r \<noteq> Inl SystemExit \<and> r \<noteq> Inr Return \<and>
     ignored_tag_types s \<subseteq> ignored_tag_types s' \<and>
     events s' = events s @ emitted s s' \<and>
     create_calls (emitted s s') = (if tag_candidate h ts ids view e then [e] else []) \<and>
     (create_fails h (view_Id view) e = None \<and> ts ''check_blank_tag'' = Some b \<and>
      \<not> (b \<and> blank h (created_TagText h (view_Id view) e)) \<longrightarrow>
        (\<exists>new. doc_tags s' = doc_tags s @ new \<and>
           tags_for view (if tag_candidate h ts ids view e then [e] else []) new))"
proof -
  let ?s0 = "emit (UpdateProgress idx n) s"
  have e0: "emitted s ?s0 = [UpdateProgress idx n]" by (rule emitted_append) simp
  show ?thesis
  proof (cases "elem_Id e \<in> ids \<or> skip_invisible h ts view e \<noteq> Inr False")
    case True
    with run skip_invisible_not_exit [of h ts view e]
    have "s' = ?s0 \<and> r \<noteq> Inl SystemExit \<and> r \<noteq> Inr Return"
      by (auto simp: process_element_def Let_def split: sum.splits bool.splits if_splits)
    moreover from True have "\<not> tag_candidate h ts ids view e"
      by (auto simp: tag_candidate_def)
    ultimately show ?thesis using e0 by simp
  next
    case False
    obtain r1 s1 where p: "tag_type_prompt h e ?s0 = (r1, s1)"
      by (cases "tag_type_prompt h e ?s0")
    from ok have ok0: "prompts_pass h ?s0 [e]" by (simp add: prompts_pass_def)
    note pp = tag_type_prompt_passes [OF ok0 p]
    from tag_type_prompt_quiet [OF p] obtain es1 where
      es1: "events s1 = events s @ UpdateProgress idx n # es1" "\<forall>ev\<in>set es1. quiet ev"
      by (auto simp: adds_def)
    have c1: "create_calls es1 = []" using es1(2) by simp
    from tag_type_prompt_frame [OF p] have fr1: "doc_tags s1 = doc_tags s"
      "ignored_tag_types s \<subseteq> ignored_tag_types s1" by simp_all
    show ?thesis
    proof (cases "r1 = Inr Proceed")
      case nP: False
      with run False p have eq: "s' = s1" "r = r1"
        by (auto simp: process_element_def Let_def split: sum.splits flow.splits)
      from nP pp have "elem_Category e = None" by simp
      then have nc: "\<not> tag_candidate h ts ids view e"
        by (simp add: tag_candidate_def windows_in_plan_def)
      have em: "emitted s s' = UpdateProgress idx n # es1"
        unfolding eq by (rule emitted_append) (rule es1(1))
      from pp eq fr1 es1(1) em c1 nc show ?thesis by simp
    next
      case True
      with run False p have pl: "place_tag h ts view e s1 = (r, s')"
        by (simp add: process_element_def Let_def)
      note sh = place_tag_shape [OF pl]
      from sh have r: "r \<noteq> Inl SystemExit" "r \<noteq> Inr Return"
        "ignored_tag_types s' = ignored_tag_types s1" by blast+
      show ?thesis
      proof (cases "\<exists>q l. get_projected_center_point h e = Inr (Some q) \<and>
                           windows_in_plan ts view e = Inr l")
        case yes: True
        then obtain q l where q: "get_projected_center_point h e = Inr (Some q)"
          and l: "windows_in_plan ts view e = Inr l" by blast
        from False q l have cand: "tag_candidate h ts ids view e"
          by (auto simp: tag_candidate_def)
        from sh have "case (get_projected_center_point h e, windows_in_plan ts view e) of
            (Inr (Some p), Inr l) \<Rightarrow>
               \<exists>es. events s' = events s1 @ Create (view_Id view) e l TM_ADDBY_CATEGORY Horizontal p # es
                  \<and> (\<forall>ev\<in>set es. quiet ev)
          | _ \<Rightarrow> s' = s1" by blast
        then have "\<exists>es. events s' = events s1 @ Create (view_Id view) e l TM_ADDBY_CATEGORY Horizontal q # es
                  \<and> (\<forall>ev\<in>set es. quiet ev)"
          unfolding q l by simp
        then obtain es where
          es: "events s' = events s1 @ Create (view_Id view) e l TM_ADDBY_CATEGORY Horizontal q # es"
              "\<forall>ev\<in>set es. quiet ev"
          by blast
        from es(1) es1(1) have ev: "events s' = events s @
            (UpdateProgress idx n # es1 @ Create (view_Id view) e l TM_ADDBY_CATEGORY Horizontal q # es)"
          by simp
        then have em: "emitted s s' =
            UpdateProgress idx n # es1 @ Create (view_Id view) e l TM_ADDBY_CATEGORY Horizontal q # es"
          by (rule emitted_append)
        from es(2) have c2: "create_calls es = []" by simp
        have calls: "create_calls (emitted s s') = [e]" unfolding em using c1 c2 by simp
        have tags: "create_fails h (view_Id view) e = None \<and> ts ''check_blank_tag'' = Some b \<and>
            \<not> (b \<and> blank h (created_TagText h (view_Id view) e)) \<longrightarrow>
              (\<exists>new. doc_tags s' = doc_tags s @ new \<and> tags_for view [e] new)"
        proof (intro impI, elim conjE)
          assume a: "create_fails h (view_Id view) e = None" "ts ''check_blank_tag'' = Some b"
            "\<not> (b \<and> blank h (created_TagText h (view_Id view) e))"
          from place_tag_keeps [OF q l a, of s1] pl
          have "doc_tags s' = doc_tags s1 @ [created_tag h (view_Id view) e l q (next_id s1)]"
            by auto
          with fr1(1) have "doc_tags s' = doc_tags s @ [created_tag h (view_Id view) e l q (next_id s1)]"
            by simp
          with tags_for_created show "\<exists>new. doc_tags s' = doc_tags s @ new \<and> tags_for view [e] new"
            by blast
        qed
        from r fr1(2) ev em calls tags cand show ?thesis by simp
      next
        case no: False
        from sh have "case (get_projected_center_point h e, windows_in_plan ts view e) of
            (Inr (Some p), Inr l) \<Rightarrow>
               \<exists>es. events s' = events s1 @ Create (view_Id view) e l TM_ADDBY_CATEGORY Horizontal p # es
                  \<and> (\<forall>ev\<in>set es. quiet ev)
          | _ \<Rightarrow> s' = s1" by blast
        with no have eq: "s' = s1"
          by (cases "get_projected_center_point h e"; cases "windows_in_plan ts view e")
             (auto split: option.splits)
        from no have nc: "\<not> tag_candidate h ts ids view e" by (auto simp: tag_candidate_def)
        have em: "emitted s s' = UpdateProgress idx n # es1"
          unfolding eq by (rule emitted_append) (rule es1(1))
        from r eq fr1 es1(1) em c1 nc show ?thesis by simp
      qed
    qed
  qed
qed

lemma try_element_candidate:
  assumes ok: "prompts_pass h s [e]"
      and run: "try_element h ts ids view n idx e s = (r, s')"
  shows "(\<exists>f. r = Inr f \<and> f \<noteq> Return) \<and>
     ignored_tag_types s \<subseteq> ignored_tag_types s' \<and>
     events s' = events s @ emitted s s' \<and>
     create_calls (emitted s s') = (if tag_candidate h ts ids view e then [e] else []) \<and>
     (create_fails h (view_Id view) e = None \<and> ts ''check_blank_tag'' = Some b \<and>
      \<not> (b \<and> blank h (created_TagText h (view_Id view) e)) \<longrightarrow>
        (\<exists>new. doc_tags s' = doc_tags s @ new \<and>
           tags_for view (if tag_candidate h ts ids view e then [e] else []) new))"
proof -
  obtain r1 s1 where p: "process_element h ts ids view n idx e s = (r1, s1)"
    by (cases "process_element h ts ids view n idx e s")
  note a = process_element_candidate [OF ok p, of b]
  from a have r1: "r1 \<noteq> Inl SystemExit" "r1 \<noteq> Inr Return"
    and ig: "ignored_tag_types s \<subseteq> ignored_tag_types s1"
    and ev1: "events s1 = events s @ emitted s s1"
    and calls: "create_calls (emitted s s1) = (if tag_candidate h ts ids view e then [e] else [])"
    and tags: "create_fails h (view_Id view) e = None \<and> ts ''check_blank_tag'' = Some b \<and>
      \<not> (b \<and> blank h (created_TagText h (view_Id view) e)) \<longrightarrow>
        (\<exists>new. doc_tags s1 = doc_tags s @ new \<and>
           tags_for view (if tag_candidate h ts ids view e then [e] else []) new)"
    by blast+
  show ?thesis
  proof (cases "\<exists>m. r1 = Inl (Exception m)")
    case True
    then obtain m where m: "r1 = Inl (Exception m)" ..
    let ?pr = "Print (ErrorProcessingElement (elem_Id e) m)"
    from m run p have eq: "s' = emit ?pr s1" "r = Inr Continue"
      by (simp_all add: try_element_def)
    have ev: "events s' = events s @ (emitted s s1 @ [?pr])"
      unfolding eq using ev1 by simp
    then have em: "emitted s s' = emitted s s1 @ [?pr]" by (rule emitted_append)
    have d: "doc_tags s' = doc_tags s1" unfolding eq by (simp add: emit_def)
    have i: "ignored_tag_types s' = ignored_tag_types s1" unfolding eq by (simp add: emit_def)
    show ?thesis unfolding em d i using eq(2) ig ev calls tags by simp
  next
    case False
    with run p have eq: "s' = s1" "r = r1"
      by (auto simp: try_element_def split: sum.splits exc.splits)
    from False r1 have "\<exists>f. r1 = Inr f \<and> f \<noteq> Return"
      by (cases r1) (auto, metis exc.exhaust)
    with eq ig ev1 calls tags show ?thesis by simp
  qed
qed

lemma prompts_pass_Cons:
  assumes "prompts_pass h s (e # els)" "ignored_tag_types s \<subseteq> ignored_tag_types s1"
  shows "prompts_pass h s [e]" and "prompts_pass h s1 els"
  using assms unfolding prompts_pass_def by (simp, blast)+

lemma tag_loop_candidates:
  "prompts_pass h s els \<Longrightarrow> tag_loop h ts ids view n idx els s = (r, s') \<Longrightarrow>
   r = Inr () \<and> events s' = events s @ emitted s s' \<and>
   create_calls (emitted s s') = filter (tag_candidate h ts ids view) els \<and>
   (ts ''check_blank_tag'' = Some b \<and>
    (\<forall>e\<in>set els. create_fails h (view_Id view) e = None \<and>
       \<not> (b \<and> blank h (created_TagText h (view_Id view) e))) \<longrightarrow>
      (\<exists>new. doc_tags s' = doc_tags s @ new \<and>
         tags_for view (filter (tag_candidate h ts ids view) els) new))"
proof (induction els arbitrary: idx s)
  case Nil
  then show ?case by (simp add: emitted_def)
next
  case (Cons e els)
  obtain r1 s1 where t: "try_element h ts ids view n idx e s = (r1, s1)"
    by (cases "try_element h ts ids view n idx e s")
  have ok1: "prompts_pass h s [e]" using Cons.prems(1) by (auto simp: prompts_pass_def)
  note a = try_element_candidate [OF ok1 t, of b]
  from a obtain f where f: "r1 = Inr f" "f \<noteq> Return" by blast
  from a have ig: "ignored_tag_types s \<subseteq> ignored_tag_types s1"
    and ev1: "events s1 = events s @ emitted s s1"
    and calls: "create_calls (emitted s s1) = (if tag_candidate h ts ids view e then [e] else [])"
    and tags: "create_fails h (view_Id view) e = None \<and> ts ''check_blank_tag'' = Some b \<and>
      \<not> (b \<and> blank h (created_TagText h (view_Id view) e)) \<longrightarrow>
        (\<exists>new. doc_tags s1 = doc_tags s @ new \<and>
           tags_for view (if tag_candidate h ts ids view e then [e] else []) new)"
    by blast+
  from Cons.prems(2) t f have l: "tag_loop h ts ids view n (Suc idx) els s1 = (r, s')"
    by (auto split: flow.splits)
  from prompts_pass_Cons(2) [OF Cons.prems(1) ig] have ok2: "prompts_pass h s1 els" .
  note ih = Cons.IH [OF ok2 l]
  from ih have r: "r = Inr ()" and ev2: "events s' = events s1 @ emitted s1 s'"
    and calls2: "create_calls (emitted s1 s') = filter (tag_candidate h ts ids view) els"
    by blast+
  have ev: "events s' = events s @ (emitted s s1 @ emitted s1 s')"
    using ev2 ev1 by simp
  then have em: "emitted s s' = emitted s s1 @ emitted s1 s'" by (rule emitted_append)
  have c: "create_calls (emitted s s') = filter (tag_candidate h ts ids view) (e # els)"
    unfolding em using calls calls2 by simp
  have tg: "ts ''check_blank_tag'' = Some b \<and>
    (\<forall>x\<in>set (e # els). create_fails h (view_Id view) x = None \<and>
       \<not> (b \<and> blank h (created_TagText h (view_Id view) x))) \<longrightarrow>
      (\<exists>new. doc_tags s' = doc_tags s @ new \<and>
         tags_for view (filter (tag_candidate h ts ids view) (e # els)) new)"
  proof (intro impI, elim conjE)
    assume b: "ts ''check_blank_tag'' = Some b"
      and all: "\<forall>x\<in>set (e # els). create_fails h (view_Id view) x = None \<and>
         \<not> (b \<and> blank h (created_TagText h (view_Id view) x))"
    from tags b all obtain new1 where n1: "doc_tags s1 = doc_tags s @ new1"
      "tags_for view (if tag_candidate h ts ids view e then [e] else []) new1" by auto
    from ih b all obtain new2 where n2: "doc_tags s' = doc_tags s1 @ new2"
      "tags_for view (filter (tag_candidate h ts ids view) els) new2" by auto
    from n1(1) n2(1) have "doc_tags s' = doc_tags s @ (new1 @ new2)" by simp
    moreover from tags_for_append [OF n1(2) n2(2)]
    have "tags_for view (filter (tag_candidate h ts ids view) (e # els)) (new1 @ new2)"
      by (simp split: if_splits)
    ultimately show "\<exists>new. doc_tags s' = doc_tags s @ new \<and>
         tags_for view (filter (tag_candidate h ts ids view) (e # els)) new" by blast
  qed
  from ev em have ev': "events s' = events s @ emitted s s'" by simp
  show ?case
  proof (intro conjI)
    show "r = Inr ()" by (rule r)
    show "events s' = events s @ emitted s s'" by (rule ev')
    show "create_calls (emitted s s') = filter (tag_candidate h ts ids view) (e # els)"
      by (rule c)
    show "ts ''check_blank_tag'' = Some b \<and>
      (\<forall>x\<in>set (e # els). create_fails h (view_Id view) x = None \<and>
         \<not> (b \<and> blank h (created_TagText h (view_Id view) x))) \<longrightarrow>
        (\<exists>new. doc_tags s' = doc_tags s @ new \<and>
           tags_for view (filter (tag_candidate h ts ids view) (e # els)) new)"
      by (rule tg)
  qed
qed

subsection \<open>A box from 0.2 to 1\<close>

text \<open>The literal 0.2, and the three operations of line 35 on the corners 0.2 and 1.\<close>

lemma fifth_literal: "round_double (2 / 10) = Finite fifth"
  by (subst round_double_binade [of "- 3"])
     (simp_all add: fifth_def power_int_minus round_half_even_def Let_def)

lemma sub_fifth: "ieee_minus (Finite 1) (Finite fifth) = Finite (3602879701896397 / 4503599627370496)"
proof -
  have "ieee_minus (Finite 1) (Finite fifth) = round_double (1 - fifth)"
    by (simp add: ieee_minus_def)
  also have "\<dots> = Finite (3602879701896397 / 4503599627370496)"
    by (subst round_double_binade [of "- 1"])
       (simp_all add: fifth_def power_int_minus round_half_even_def Let_def)
  finally show ?thesis .
qed

lemma half_fifth:
  "round_double (3602879701896397 / 9007199254740992) = Finite (3602879701896397 / 9007199254740992)"
  by (subst round_double_binade [of "- 2"])
     (simp_all add: power_int_minus round_half_even_def Let_def)

lemma add_fifth:
  "round_double (fifth + 3602879701896397 / 9007199254740992) =
     Finite (1351079888211149 / 2251799813685248)"
  by (subst round_double_binade [of "- 1"])
     (simp_all add: fifth_def power_int_minus round_half_even_def Let_def)

lemma center_fifth:
  "get_projected_center_point host0 door_fifth =
     Inr (Some (point (1351079888211149 / 2251799813685248) (1351079888211149 / 2251799813685248)
                  (1351079888211149 / 2251799813685248)))"
  by (simp add: get_projected_center_point_def host0_def door_fifth_def box_fifth_def
        point_def ieee_add_def ieee_sub_def ieee_rmul_def sub_fifth half_fifth add_fifth)

lemma mid_fifth:
  "midpoint_xyz (bbox_Min box_fifth) (bbox_Max box_fifth) =
     point (21617278211378381 / 36028797018963968) (21617278211378381 / 36028797018963968)
       (21617278211378381 / 36028797018963968)"
  by (simp add: midpoint_xyz_def box_fifth_def point_def fifth_def)

lemma mid_rounded:
  "round_double (21617278211378381 / 36028797018963968) = Finite (5404319552844595 / 9007199254740992)"
  by (subst round_double_binade [of "- 1"])
     (simp_all add: power_int_minus round_half_even_def Let_def)

section \<open>Elements that a view's tags already cover\<close>

text \<open>
  Claim C1. In every call of the tagger for a view, an element whose identifier is in the
  set collected from the view's existing tags gets no new tag in this view: no call of
  the tag creation is made for it. The set is the union of what each existing tag of the
  view covers, read in the way of the host version. A tag that the tagger itself has
  created covers its element while it is in the document, so a second run over the view
  creates no second tag for that element.
\<close>

theorem covered_element_not_tagged_again:
  "(tag_elements_in_view h view elements s = (r, s') \<and> elem_Id e \<in> covered_ids h view s \<longrightarrow>
      Create vid e leader tmode orient p \<notin> set (emitted s s')) \<and>
   (get_revit_version h = Inr v \<longrightarrow>
      covered_ids h view s = (\<Union>t\<in>set (existing_tags view s). tag_covers v t)) \<and>
   (get_revit_version h = Inr v \<and>
    created_tag h (view_Id view) e leader p i \<in> set (doc_tags s) \<longrightarrow>
      elem_Id e \<in> covered_ids h view s)"
proof (intro conjI impI)
  assume a: "tag_elements_in_view h view elements s = (r, s') \<and> elem_Id e \<in> covered_ids h view s"
  show "Create vid e leader tmode orient p \<notin> set (emitted s s')"
  proof
    assume c: "Create vid e leader tmode orient p \<in> set (emitted s s')"
    from a have run: "tag_elements_in_view h view elements s = (r, s')" by simp
    from adds_emitted(2) [OF tag_elements_in_view_adds [OF run]] c
    have "view_event h view elements s (Create vid e leader tmode orient p)" by blast
    with a show False by (auto simp: view_event_def)
  qed
next
  assume "get_revit_version h = Inr v"
  then show "covered_ids h view s = (\<Union>t\<in>set (existing_tags view s). tag_covers v t)"
    by (rule covered_ids_tags)
next
  assume a: "get_revit_version h = Inr v \<and>
    created_tag h (view_Id view) e leader p i \<in> set (doc_tags s)"
  then have "created_tag h (view_Id view) e leader p i \<in> set (existing_tags view s)"
    by (simp add: existing_tags_def created_tag_def)
  moreover from a have "covered_ids h view s = (\<Union>t\<in>set (existing_tags view s). tag_covers v t)"
    by (simp add: covered_ids_tags)
  ultimately show "elem_Id e \<in> covered_ids h view s"
    using created_tag_covers [of v h "view_Id view" e leader p i] by blast
qed

theorem covered_element_not_tagged_again_witness:
  "elem_Id door1 \<in> covered_ids host0 level1 state1 \<and>
   Create 1 door1 False TM_ADDBY_CATEGORY Horizontal p0
     \<notin> set (emitted state1 (snd (tag_elements_in_view host0 level1 [door1, door2] state1))) \<and>
   get_revit_version host0 = Inr 2024 \<and>
   created_tag host0 (view_Id level1) door1 False p0 1000
     \<in> set (doc_tags (snd (tag_elements_in_view host0 level1 [door1] state0))) \<and>
   elem_Id door1 \<in> covered_ids host0 level1 (snd (tag_elements_in_view host0 level1 [door1] state0)) \<and>
   Create 1 door1 False TM_ADDBY_CATEGORY Horizontal p0
     \<notin> set (emitted (snd (tag_elements_in_view host0 level1 [door1] state0))
           (snd (tag_elements_in_view host0 level1 [door1]
              (snd (tag_elements_in_view host0 level1 [door1] state0)))))"
proof -
  let ?s1 = "snd (tag_elements_in_view host0 level1 [door1] state0)"
  have c: "elem_Id door1 \<in> covered_ids host0 level1 state1"
    by (simp add: covered_ids_def get_revit_version_def host0_def existing_tags_def state1_def
          state0_def tag0_def level1_def door1_def)
  have r: "tag_elements_in_view host0 level1 [door1, door2] state1 =
      (fst (tag_elements_in_view host0 level1 [door1, door2] state1),
       snd (tag_elements_in_view host0 level1 [door1, door2] state1))"
    by simp
  have v: "get_revit_version host0 = Inr 2024"
    by (simp add: get_revit_version_def host0_def)
  have t: "created_tag host0 (view_Id level1) door1 False p0 1000 \<in> set (doc_tags ?s1)"
    unfolding run_door1 by (simp add: level1_def)
  have r2: "tag_elements_in_view host0 level1 [door1] ?s1 =
      (fst (tag_elements_in_view host0 level1 [door1] ?s1),
       snd (tag_elements_in_view host0 level1 [door1] ?s1))"
    by simp
  have c2: "elem_Id door1 \<in> covered_ids host0 level1 ?s1"
    using v t
      covered_element_not_tagged_again [where h = host0 and v = 2024 and view = level1
        and e = door1 and leader = False and p = p0 and i = 1000 and s = ?s1]
    by blast
  have n1: "Create 1 door1 False TM_ADDBY_CATEGORY Horizontal p0
     \<notin> set (emitted state1 (snd (tag_elements_in_view host0 level1 [door1, door2] state1)))"
    using c r
      covered_element_not_tagged_again [where h = host0 and view = level1 and e = door1
        and s = state1 and elements = "[door1, door2]"
        and r = "fst (tag_elements_in_view host0 level1 [door1, door2] state1)"
        and s' = "snd (tag_elements_in_view host0 level1 [door1, door2] state1)"]
    by blast
  have n2: "Create 1 door1 False TM_ADDBY_CATEGORY Horizontal p0
     \<notin> set (emitted ?s1 (snd (tag_elements_in_view host0 level1 [door1] ?s1)))"
    using c2 r2
      covered_element_not_tagged_again [where h = host0 and view = level1 and e = door1
        and s = ?s1 and elements = "[door1]"
        and r = "fst (tag_elements_in_view host0 level1 [door1] ?s1)"
        and s' = "snd (tag_elements_in_view host0 level1 [door1] ?s1)"]
    by blast
  from c v t c2 n1 n2 show ?thesis by blast
qed

section \<open>The variant of the created tag\<close>

text \<open>
  Claim C8. Every call of the tag creation that the tagger makes for a view uses the mode
  add-by-category and the horizontal orientation, in the view of the call; it asks for a
  leader exactly when the element's category is named Windows, the view is a floor plan
  and the setting \<^verbatim>\<open>tag_windows_in_plan\<close> that the call has loaded is on.
\<close>

theorem tag_variant_by_category:
  assumes "tag_elements_in_view h view elements s = (r, s')"
      and "Create vid e leader tmode orient p \<in> set (emitted s s')"
  shows "tmode = TM_ADDBY_CATEGORY \<and> orient = Horizontal \<and> vid = view_Id view \<and>
         (\<exists>ts c. view_settings h s = Inr ts \<and> elem_Category e = Some c \<and>
            (leader \<longleftrightarrow> cat_Name c = ''Windows'' \<and> view_Type view = FloorPlan \<and>
               ts ''tag_windows_in_plan'' = Some True))"
proof -
  from adds_emitted(2) [OF tag_elements_in_view_adds [OF assms(1)]] assms(2)
  have "view_event h view elements s (Create vid e leader tmode orient p)" by blast
  then obtain ts where ts: "view_settings h s = Inr ts"
    and ev: "element_event h ts (covered_ids h view s) view e (Create vid e leader tmode orient p)"
    by (auto simp: view_event_def)
  from ev have w: "windows_in_plan ts view e = Inr leader" by simp
  from windows_in_plan_Inr [OF w] ts ev show ?thesis by auto
qed

theorem tag_variant_by_category_witness:
  "Create 1 window1 True TM_ADDBY_CATEGORY Horizontal \<lparr>xyz_X = Finite 1, xyz_Y = Finite 2, xyz_Z = Finite 3\<rparr>
     \<in> set (emitted state0 (snd (tag_elements_in_view host1 level1 [window1] state0))) \<and>
   (\<exists>ts c. view_settings host1 state0 = Inr ts \<and> elem_Category window1 = Some c \<and>
      (True \<longleftrightarrow> cat_Name c = ''Windows'' \<and> view_Type level1 = FloorPlan \<and>
         ts ''tag_windows_in_plan'' = Some True))"
proof -
  have r: "tag_elements_in_view host1 level1 [window1] state0 =
      (fst (tag_elements_in_view host1 level1 [window1] state0),
       snd (tag_elements_in_view host1 level1 [window1] state0))"
    by simp
  have m: "Create 1 window1 True TM_ADDBY_CATEGORY Horizontal \<lparr>xyz_X = Finite 1, xyz_Y = Finite 2, xyz_Z = Finite 3\<rparr>
     \<in> set (emitted state0 (snd (tag_elements_in_view host1 level1 [window1] state0)))"
    unfolding run_window1 by (simp add: emitted_def state0_def)
  from m tag_variant_by_category [OF r m] show ?thesis by blast
qed

section \<open>Elements without a bounding box\<close>

text \<open>
  Claim C9, as amended. For an element whose bounding box is absent, the center-point
  computation returns the no-point signal; the placement step then skips to the next
  element and leaves the state as it is; the guarded processing of the element makes no
  call of the tag creation, leaves the tags of the document as they are and lets no
  exception of class \<^verbatim>\<open>Exception\<close> through; if it ends with an exception at all, this is
  the script exit of the prompt, which comes before the center point, and the prompt is
  then the last event. A whole call of the tagger makes no creation call for such an
  element. When the bounding box is present, the point is
  \<^verbatim>\<open>Min + 0.5 * (Max - Min)\<close> as the host's operators compute it, and the placement step
  calls the creation with this point; where the corners are finite and the three
  operations are exact on the box (none of them rounds), the point is the midpoint of the
  two corners.
\<close>

theorem no_bounding_box_no_tag:
  "(get_BoundingBox e = Inr None \<longrightarrow>
      get_projected_center_point h e = Inr None \<and>
      place_tag h ts view e s = (Inr Continue, s) \<and>
      doc_tags (snd (try_element h ts ids view n idx e s)) = doc_tags s \<and>
      (\<forall>vid e' l tm orient p.
         Create vid e' l tm orient p \<notin> set (emitted s (snd (try_element h ts ids view n idx e s)))) \<and>
      (\<forall>m. fst (try_element h ts ids view n idx e s) \<noteq> Inl (Exception m)) \<and>
      (\<forall>x. fst (try_element h ts ids view n idx e s) = Inl x \<longrightarrow>
         x = SystemExit \<and> stopped_at_prompt h (snd (try_element h ts ids view n idx e s))) \<and>
      (\<forall>vid l tm orient p.
         Create vid e l tm orient p \<notin> set (emitted s (snd (tag_elements_in_view h view els s))))) \<and>
   (get_BoundingBox e = Inr (Some b) \<longrightarrow>
      get_projected_center_point h e =
        Inr (Some (XYZ_add h (bbox_Min b)
                     (XYZ_rmul h (Finite 0.5) (XYZ_sub h (bbox_Max b) (bbox_Min b))))) \<and>
      (windows_in_plan ts view e = Inr l \<longrightarrow>
         (\<exists>es. emitted s (snd (place_tag h ts view e s)) =
            Create (view_Id view) e l TM_ADDBY_CATEGORY Horizontal
              (XYZ_add h (bbox_Min b)
                 (XYZ_rmul h (Finite 0.5) (XYZ_sub h (bbox_Max b) (bbox_Min b)))) # es)) \<and>
      (exact_on h b \<and> bbox_Min b = point x y z \<and> bbox_Max b = point x' y' z' \<longrightarrow>
         get_projected_center_point h e = Inr (Some (midpoint_xyz (bbox_Min b) (bbox_Max b)))))"
proof -
  let ?t = "try_element h ts ids view n idx e s"
  let ?c = "XYZ_add h (bbox_Min b) (XYZ_rmul h (Finite 0.5) (XYZ_sub h (bbox_Max b) (bbox_Min b)))"
  have absent: "get_BoundingBox e = Inr None \<longrightarrow>
      get_projected_center_point h e = Inr None \<and>
      place_tag h ts view e s = (Inr Continue, s) \<and>
      doc_tags (snd ?t) = doc_tags s \<and>
      (\<forall>vid e' l tm orient p. Create vid e' l tm orient p \<notin> set (emitted s (snd ?t))) \<and>
      (\<forall>m. fst ?t \<noteq> Inl (Exception m)) \<and>
      (\<forall>x. fst ?t = Inl x \<longrightarrow> x = SystemExit \<and> stopped_at_prompt h (snd ?t)) \<and>
      (\<forall>vid l tm orient p.
         Create vid e l tm orient p \<notin> set (emitted s (snd (tag_elements_in_view h view els s))))"
  proof
    assume nb: "get_BoundingBox e = Inr None"
    have c: "get_projected_center_point h e = Inr None"
      using nb by (simp add: get_projected_center_point_def)
    have pl: "place_tag h ts view e s = (Inr Continue, s)"
      using c by (simp add: place_tag_def)
    obtain r1 s1 where p: "process_element h ts ids view n idx e s = (r1, s1)"
      by (cases "process_element h ts ids view n idx e s")
    from process_element_no_box [OF nb p] p
    have d: "doc_tags (snd ?t) = doc_tags s"
      by (auto simp: try_element_def split: sum.splits exc.splits)
    obtain r2 s2 where t: "?t = (r2, s2)" by (cases ?t)
    have nocreate: "Create vid e' l tm orient q \<notin> set (emitted s (snd ?t))" for vid e' l tm orient q
    proof
      assume "Create vid e' l tm orient q \<in> set (emitted s (snd ?t))"
      then have m: "Create vid e' l tm orient q \<in> set (emitted s s2)" using t by simp
      from bspec [OF adds_emitted(2) [OF try_element_adds [OF t]] m]
      have "get_projected_center_point h e = Inr (Some q)" by simp
      with c show False by simp
    qed
    have noexc: "fst ?t \<noteq> Inl (Exception m)" for m
      by (rule try_element_no_Exception)
    have exit: "x = SystemExit \<and> stopped_at_prompt h (snd ?t)" if x: "fst ?t = Inl x" for x
    proof -
      from x noexc [of "case x of Exception m \<Rightarrow> m | SystemExit \<Rightarrow> []"]
      have xs: "x = SystemExit" by (cases x) auto
      with x t have "?t = (Inl SystemExit, s2)" by simp
      from try_element_stopped [OF this] xs t show ?thesis by simp
    qed
    obtain rv sv where run: "tag_elements_in_view h view els s = (rv, sv)"
      by (cases "tag_elements_in_view h view els s")
    have noview: "Create vid e l tm orient q \<notin>
        set (emitted s (snd (tag_elements_in_view h view els s)))" for vid l tm orient q
    proof
      assume "Create vid e l tm orient q \<in>
        set (emitted s (snd (tag_elements_in_view h view els s)))"
      then have m: "Create vid e l tm orient q \<in> set (emitted s sv)" using run by simp
      from bspec [OF adds_emitted(2) [OF tag_elements_in_view_adds [OF run]] m]
      have "view_event h view els s (Create vid e l tm orient q)" .
      then have "get_projected_center_point h e = Inr (Some q)"
        by (auto simp: view_event_def)
      with c show False by simp
    qed
    from c pl d nocreate noexc exit noview
    show "get_projected_center_point h e = Inr None \<and>
      place_tag h ts view e s = (Inr Continue, s) \<and>
      doc_tags (snd ?t) = doc_tags s \<and>
      (\<forall>vid e' l tm orient p. Create vid e' l tm orient p \<notin> set (emitted s (snd ?t))) \<and>
      (\<forall>m. fst ?t \<noteq> Inl (Exception m)) \<and>
      (\<forall>x. fst ?t = Inl x \<longrightarrow> x = SystemExit \<and> stopped_at_prompt h (snd ?t)) \<and>
      (\<forall>vid l tm orient p.
         Create vid e l tm orient p \<notin> set (emitted s (snd (tag_elements_in_view h view els s))))"
      by blast
  qed
  have present: "get_BoundingBox e = Inr (Some b) \<longrightarrow>
      get_projected_center_point h e = Inr (Some ?c) \<and>
      (windows_in_plan ts view e = Inr l \<longrightarrow>
         (\<exists>es. emitted s (snd (place_tag h ts view e s)) =
            Create (view_Id view) e l TM_ADDBY_CATEGORY Horizontal ?c # es)) \<and>
      (exact_on h b \<and> bbox_Min b = point x y z \<and> bbox_Max b = point x' y' z' \<longrightarrow>
         get_projected_center_point h e = Inr (Some (midpoint_xyz (bbox_Min b) (bbox_Max b))))"
  proof
    assume bb: "get_BoundingBox e = Inr (Some b)"
    then have c: "get_projected_center_point h e = Inr (Some ?c)"
      by (simp add: get_projected_center_point_def)
    have cr: "\<exists>es. emitted s (snd (place_tag h ts view e s)) =
            Create (view_Id view) e l TM_ADDBY_CATEGORY Horizontal ?c # es"
      if l: "windows_in_plan ts view e = Inr l"
      using c l
      by (cases l)
         (auto simp: place_tag_def IndependentTag_Create_def delete_if_blank_def doc_Delete_def
            Let_def emitted_def split: option.splits)
    have mid: "get_projected_center_point h e = Inr (Some (midpoint_xyz (bbox_Min b) (bbox_Max b)))"
      if ex: "exact_on h b" and mn: "bbox_Min b = point x y z"
        and mx: "bbox_Max b = point x' y' z'"
    proof -
      let ?half = "exact_rmul (Finite 0.5) (exact_sub (bbox_Max b) (bbox_Min b))"
      from ex have "?c = exact_add (bbox_Min b) ?half"
        by (simp add: exact_on_def Let_def)
      also have "\<dots> = midpoint_xyz (bbox_Min b) (bbox_Max b)"
        unfolding mn mx
        by (simp add: exact_add_def exact_rmul_def exact_sub_def midpoint_xyz_def point_def
              field_simps)
      finally show ?thesis using c by simp
    qed
    from c cr mid
    show "get_projected_center_point h e = Inr (Some ?c) \<and>
      (windows_in_plan ts view e = Inr l \<longrightarrow>
         (\<exists>es. emitted s (snd (place_tag h ts view e s)) =
            Create (view_Id view) e l TM_ADDBY_CATEGORY Horizontal ?c # es)) \<and>
      (exact_on h b \<and> bbox_Min b = point x y z \<and> bbox_Max b = point x' y' z' \<longrightarrow>
         get_projected_center_point h e = Inr (Some (midpoint_xyz (bbox_Min b) (bbox_Max b))))"
      by blast
  qed
  from absent present show ?thesis by blast
qed

lemma box0_exact: "exact_on host0 box0"
  by (simp add: exact_on_def host0_def box0_def double_simps exact_add_def exact_sub_def
        exact_rmul_def Let_def)

theorem no_bounding_box_no_tag_witness:
  "get_BoundingBox boxless = Inr None \<and>
   get_projected_center_point host0 boxless = Inr None \<and>
   place_tag host0 toggles_off level1 boxless state0 = (Inr Continue, state0) \<and>
   doc_tags (snd (try_element host0 toggles_off {} level1 1 0 boxless state0)) = doc_tags state0 \<and>
   Create 1 boxless False TM_ADDBY_CATEGORY Horizontal p0 \<notin>
     set (emitted state0 (snd (tag_elements_in_view host0 level1 [door1, boxless] state0))) \<and>
   get_BoundingBox door1 = Inr (Some box0) \<and>
   windows_in_plan toggles_off level1 door1 = Inr False \<and>
   (\<exists>es. emitted state0 (snd (place_tag host0 toggles_off level1 door1 state0)) =
      Create (view_Id level1) door1 False TM_ADDBY_CATEGORY Horizontal p0 # es) \<and>
   emitted state0 (snd (place_tag host0 toggles_off level1 door1 state0)) =
     [Create 1 door1 False TM_ADDBY_CATEGORY Horizontal p0] \<and>
   exact_on host0 box0 \<and>
   bbox_Min box0 = point 0 0 0 \<and> bbox_Max box0 = point 2 4 6 \<and>
   get_projected_center_point host0 door1 = Inr (Some (midpoint_xyz (bbox_Min box0) (bbox_Max box0))) \<and>
   midpoint_xyz (bbox_Min box0) (bbox_Max box0) = p0"
proof -
  have a: "get_BoundingBox boxless = Inr None" by (simp add: boxless_def)
  have b: "get_BoundingBox door1 = Inr (Some box0)" by (simp add: door1_def)
  have w: "windows_in_plan toggles_off level1 door1 = Inr False"
    by (simp add: windows_in_plan_def door1_def doors_def)
  have mn: "bbox_Min box0 = point 0 0 0" and mx: "bbox_Max box0 = point 2 4 6"
    by (simp_all add: box0_def point_def)
  have c0: "XYZ_add host0 (bbox_Min box0)
      (XYZ_rmul host0 (Finite 0.5) (XYZ_sub host0 (bbox_Max box0) (bbox_Min box0))) = p0"
    by (simp add: host0_def box0_def p0_def double_simps)
  have m0: "midpoint_xyz (bbox_Min box0) (bbox_Max box0) = p0"
    by (simp add: midpoint_xyz_def box0_def p0_def point_def)
  note absent = no_bounding_box_no_tag [where e = boxless and h = host0 and ts = toggles_off
      and view = level1 and s = state0 and ids = "{}" and n = 1 and idx = 0
      and els = "[door1, boxless]"]
  note present = no_bounding_box_no_tag [where e = door1 and b = box0 and h = host0
      and ts = toggles_off and view = level1 and s = state0 and l = False
      and x = 0 and y = 0 and z = 0 and x' = 2 and y' = 4 and z' = 6]
  from a absent have r1: "get_projected_center_point host0 boxless = Inr None"
    "place_tag host0 toggles_off level1 boxless state0 = (Inr Continue, state0)"
    "doc_tags (snd (try_element host0 toggles_off {} level1 1 0 boxless state0)) = doc_tags state0"
    "Create 1 boxless False TM_ADDBY_CATEGORY Horizontal p0 \<notin>
       set (emitted state0 (snd (tag_elements_in_view host0 level1 [door1, boxless] state0)))"
    by blast+
  from b w present have "\<exists>es. emitted state0 (snd (place_tag host0 toggles_off level1 door1 state0)) =
      Create (view_Id level1) door1 False TM_ADDBY_CATEGORY Horizontal
        (XYZ_add host0 (bbox_Min box0)
           (XYZ_rmul host0 (Finite 0.5) (XYZ_sub host0 (bbox_Max box0) (bbox_Min box0)))) # es"
    by blast
  then have r2: "\<exists>es. emitted state0 (snd (place_tag host0 toggles_off level1 door1 state0)) =
      Create (view_Id level1) door1 False TM_ADDBY_CATEGORY Horizontal p0 # es"
    unfolding c0 .
  from b box0_exact mn mx present
  have r3: "get_projected_center_point host0 door1 =
      Inr (Some (midpoint_xyz (bbox_Min box0) (bbox_Max box0)))"
    by blast
  have r4: "emitted state0 (snd (place_tag host0 toggles_off level1 door1 state0)) =
     [Create 1 door1 False TM_ADDBY_CATEGORY Horizontal p0]"
    by (simp add: step_defs data_defs p0_def emit_def emitted_def Let_def)
  from a b w mn mx m0 box0_exact r1 r2 r3 r4 show ?thesis by blast
qed

text \<open>
  The claim as it stands fails in two ways. An element without a bounding box reaches the
  prompt before its center point is asked for: here a window without a bounding box is
  processed on a host with no tag type for windows, and the user declines; the script exit
  leaves the guard of the element, the loop and the call of the driver. And the point is
  computed in doubles: for a box that reaches from 0.2 to 1 in every coordinate, each
  coordinate of the computed point is 0.6000000000000001 (\<open>5404319552844596 / 2\<^sup>5\<^sup>3\<close>),
  which is neither the midpoint of the corners nor the double nearest to the midpoint
  (\<open>5404319552844595 / 2\<^sup>5\<^sup>3\<close>), and the tag is placed at the computed point.
\<close>

theorem boxless_exit_and_rounded_center:
  "get_BoundingBox boxless_window = Inr None \<and>
   try_element host_exit toggles_off {} level1 1 0 boxless_window state0 =
     (Inl SystemExit, state0\<lparr>events := [UpdateProgress 0 1, Alert windows]\<rparr>) \<and>
   tag_elements_in_selected_views host_exit [level1] [boxless_window] state0 =
     (Inl SystemExit,
      state0\<lparr>tx := Started [],
        events := [TxStart, Print (RunningOnVersion 2024), LoadToggleSettings,
                   UpdateProgress 0 1, Alert windows]\<rparr>) \<and>
   get_BoundingBox door_fifth = Inr (Some box_fifth) \<and>
   bbox_Min box_fifth = point fifth fifth fifth \<and>
   bbox_Max box_fifth = point 1 1 1 \<and>
   round_double (2 / 10) = Finite fifth \<and>
   get_projected_center_point host0 door_fifth =
     Inr (Some (point (1351079888211149 / 2251799813685248) (1351079888211149 / 2251799813685248)
                  (1351079888211149 / 2251799813685248))) \<and>
   place_tag host0 toggles_off level1 door_fifth state0 =
     (Inr Proceed,
      emit (Create 1 door_fifth False TM_ADDBY_CATEGORY Horizontal
              (point (1351079888211149 / 2251799813685248) (1351079888211149 / 2251799813685248)
                 (1351079888211149 / 2251799813685248))) state0
        \<lparr>doc_tags := doc_tags state0 @
           [created_tag host0 1 door_fifth False
              (point (1351079888211149 / 2251799813685248) (1351079888211149 / 2251799813685248)
                 (1351079888211149 / 2251799813685248)) (next_id state0)],
         next_id := next_id state0 + 1\<rparr>) \<and>
   midpoint_xyz (bbox_Min box_fifth) (bbox_Max box_fifth) =
     point (21617278211378381 / 36028797018963968) (21617278211378381 / 36028797018963968)
       (21617278211378381 / 36028797018963968) \<and>
   round_double (21617278211378381 / 36028797018963968) =
     Finite (5404319552844595 / 9007199254740992) \<and>
   (1351079888211149 / 2251799813685248 :: real) \<noteq> 21617278211378381 / 36028797018963968 \<and>
   (1351079888211149 / 2251799813685248 :: real) \<noteq> 5404319552844595 / 9007199254740992"
proof -
  have a: "get_BoundingBox boxless_window = Inr None" by (simp add: boxless_window_def)
  have b: "try_element host_exit toggles_off {} level1 1 0 boxless_window state0 =
     (Inl SystemExit, state0\<lparr>events := [UpdateProgress 0 1, Alert windows]\<rparr>)"
    by (simp add: step_defs host_exit_def data_defs boxless_window_def emit_def Let_def)
  have c: "tag_elements_in_selected_views host_exit [level1] [boxless_window] state0 =
     (Inl SystemExit,
      state0\<lparr>tx := Started [],
        events := [TxStart, Print (RunningOnVersion 2024), LoadToggleSettings,
                   UpdateProgress 0 1, Alert windows]\<rparr>)"
    by (simp add: run_defs view_defs step_defs host_exit_def data_defs boxless_window_def emit_def
          Let_def)
  have d: "get_BoundingBox door_fifth = Inr (Some box_fifth)"
    "bbox_Min box_fifth = point fifth fifth fifth" "bbox_Max box_fifth = point 1 1 1"
    by (simp_all add: door_fifth_def box_fifth_def)
  have w: "windows_in_plan toggles_off level1 door_fifth = Inr False"
    by (simp add: windows_in_plan_def door_fifth_def doors_def)
  have f: "create_fails host0 (view_Id level1) door_fifth = None"
    by (simp add: host0_def)
  have t: "toggles_off ''check_blank_tag'' = Some False" by (simp add: toggles_off_def)
  have "place_tag host0 toggles_off level1 door_fifth state0 =
     (Inr Proceed,
      emit (Create (view_Id level1) door_fifth False TM_ADDBY_CATEGORY Horizontal
              (point (1351079888211149 / 2251799813685248) (1351079888211149 / 2251799813685248)
                 (1351079888211149 / 2251799813685248))) state0
        \<lparr>doc_tags := doc_tags state0 @
           [created_tag host0 (view_Id level1) door_fifth False
              (point (1351079888211149 / 2251799813685248) (1351079888211149 / 2251799813685248)
                 (1351079888211149 / 2251799813685248)) (next_id state0)],
         next_id := next_id state0 + 1\<rparr>)"
    by (rule place_tag_keeps [OF center_fifth w f t]) simp
  then have pl: "place_tag host0 toggles_off level1 door_fifth state0 =
     (Inr Proceed,
      emit (Create 1 door_fifth False TM_ADDBY_CATEGORY Horizontal
              (point (1351079888211149 / 2251799813685248) (1351079888211149 / 2251799813685248)
                 (1351079888211149 / 2251799813685248))) state0
        \<lparr>doc_tags := doc_tags state0 @
           [created_tag host0 1 door_fifth False
              (point (1351079888211149 / 2251799813685248) (1351079888211149 / 2251799813685248)
                 (1351079888211149 / 2251799813685248)) (next_id state0)],
         next_id := next_id state0 + 1\<rparr>)"
    by (simp add: level1_def)
  have n: "(1351079888211149 / 2251799813685248 :: real) \<noteq> 21617278211378381 / 36028797018963968"
    "(1351079888211149 / 2251799813685248 :: real) \<noteq> 5404319552844595 / 9007199254740992"
    by simp_all
  from a b c d fifth_literal center_fifth pl mid_fifth mid_rounded n show ?thesis by blast
qed

section \<open>Failures of one element\<close>

text \<open>
  Claim C5, as amended. An exception of class \<^verbatim>\<open>Exception\<close> raised while an element is
  processed (by the visibility check, the prompt, the center point, the creation or the
  deletion) is caught by the guard: a line with the element's identifier and the message
  is printed and the loop goes on with the next element. No such exception leaves the
  loop. When the prompt neither ends the script nor returns \<^verbatim>\<open>'No'\<close>, the loop
  returns normally and has visited every element, in order.
\<close>

theorem element_exception_caught:
  "(process_element h ts ids view n idx e s = (Inl (Exception m), s1) \<longrightarrow>
      try_element h ts ids view n idx e s =
        (Inr Continue, emit (Print (ErrorProcessingElement (elem_Id e) m)) s1) \<and>
      tag_loop h ts ids view n idx (e # rest) s =
        tag_loop h ts ids view n (Suc idx) rest
          (emit (Print (ErrorProcessingElement (elem_Id e) m)) s1)) \<and>
   (\<forall>m'. fst (tag_loop h ts ids view n idx els s) \<noteq> Inl (Exception m')) \<and>
   (prompt_goes_on h \<longrightarrow>
      fst (tag_loop h ts ids view n idx els s) = Inr () \<and>
      progress_indices (emitted s (snd (tag_loop h ts ids view n idx els s))) =
        [idx..<idx + length els])"
proof (intro conjI impI allI)
  assume p: "process_element h ts ids view n idx e s = (Inl (Exception m), s1)"
  then show t: "try_element h ts ids view n idx e s =
        (Inr Continue, emit (Print (ErrorProcessingElement (elem_Id e) m)) s1)"
    by (simp add: try_element_def)
  show "tag_loop h ts ids view n idx (e # rest) s =
        tag_loop h ts ids view n (Suc idx) rest
          (emit (Print (ErrorProcessingElement (elem_Id e) m)) s1)"
    by (simp add: t)
next
  fix m'
  show "fst (tag_loop h ts ids view n idx els s) \<noteq> Inl (Exception m')"
    by (rule tag_loop_no_Exception)
next
  assume g: "prompt_goes_on h"
  obtain r s' where l: "tag_loop h ts ids view n idx els s = (r, s')"
    by (cases "tag_loop h ts ids view n idx els s")
  from tag_loop_visits_all [OF g l] l
  show "fst (tag_loop h ts ids view n idx els s) = Inr ()"
    and "progress_indices (emitted s (snd (tag_loop h ts ids view n idx els s))) =
        [idx..<idx + length els]"
    by simp_all
qed

lemma refused_door1:
  "process_element host_refuse toggles_off {} level1 2 0 door1 state0 =
     (Inl (Exception ''refused''),
      state0\<lparr>events := [UpdateProgress 0 2,
         Create 1 door1 False TM_ADDBY_CATEGORY Horizontal \<lparr>xyz_X = Finite 1, xyz_Y = Finite 2, xyz_Z = Finite 3\<rparr>]\<rparr>)"
  by (simp add: step_defs host_refuse_def data_defs emit_def Let_def)

lemma host_refuse_goes_on: "prompt_goes_on host_refuse"
  by (simp add: prompt_goes_on_def host_refuse_def host0_def)

theorem element_exception_caught_witness:
  "process_element host_refuse toggles_off {} level1 2 0 door1 state0 =
     (Inl (Exception ''refused''),
      state0\<lparr>events := [UpdateProgress 0 2,
         Create 1 door1 False TM_ADDBY_CATEGORY Horizontal \<lparr>xyz_X = Finite 1, xyz_Y = Finite 2, xyz_Z = Finite 3\<rparr>]\<rparr>) \<and>
   try_element host_refuse toggles_off {} level1 2 0 door1 state0 =
     (Inr Continue,
      emit (Print (ErrorProcessingElement (elem_Id door1) ''refused''))
        (state0\<lparr>events := [UpdateProgress 0 2,
           Create 1 door1 False TM_ADDBY_CATEGORY Horizontal \<lparr>xyz_X = Finite 1, xyz_Y = Finite 2, xyz_Z = Finite 3\<rparr>]\<rparr>)) \<and>
   prompt_goes_on host_refuse \<and>
   fst (tag_loop host_refuse toggles_off {} level1 2 0 [door1, door2] state0) = Inr () \<and>
   progress_indices
     (emitted state0 (snd (tag_loop host_refuse toggles_off {} level1 2 0 [door1, door2] state0))) =
     [0..<0 + length [door1, door2]]"
  using refused_door1 host_refuse_goes_on
    element_exception_caught [where h = host_refuse and ts = toggles_off and ids = "{}"
      and view = level1 and n = 2 and idx = 0 and e = door1 and s = state0
      and m = "''refused''" and els = "[door1, door2]"
      and ?s1.0 = "state0\<lparr>events := [UpdateProgress 0 2,
         Create 1 door1 False TM_ADDBY_CATEGORY Horizontal \<lparr>xyz_X = Finite 1, xyz_Y = Finite 2, xyz_Z = Finite 3\<rparr>]\<rparr>"]
  by blast

text \<open>
  The claim as it stands fails: the prompt is called so that it ends the script when the
  user declines, and this exit is not caught by the guard. Here the first element's
  category has no tag type, the prompt raises \<^verbatim>\<open>SystemExit\<close>, nothing is printed, and
  the second element is never visited.
\<close>

theorem prompt_exit_not_caught:
  "alert host_exit [UpdateProgress 0 2] ''Windows'' = Inl SystemExit \<and>
   tag_loop host_exit toggles_off {} level1 2 0 [window1, door1] state0 =
     (Inl SystemExit, state0\<lparr>events := [UpdateProgress 0 2, Alert windows]\<rparr>)"
  by (simp add: step_defs host_exit_def data_defs emit_def Let_def)

section \<open>The covered set is fixed before the loop\<close>

text \<open>
  Claim C10. The identifiers that the tagger checks the elements against are those that
  the tags of the view cover which are in the document when the call begins; the loop runs
  with this one set, and tags created during the loop do not extend it. So, where no prompt
  stands in the way, the call returns normally and its calls of the tag creation are, in
  order, the occurrences in the list of the elements that pass the other filters with
  respect to that set: an element that passes and is listed twice is tagged twice, whatever
  else is in the list. Where the host refuses no creation and no label is deleted as blank,
  the document gains exactly one tag of the view for each of these occurrences, in order,
  each covering its element.
\<close>

theorem duplicates_tagged_again:
  assumes "view_settings h s = Inr ts"
      and "prompts_pass h s elements"
      and "tag_elements_in_view h view elements s = (r, s')"
  shows "(\<forall>v. get_revit_version h = Inr v \<longrightarrow>
            covered_ids h view s =
              (\<Union>t\<in>set (filter (\<lambda>t. OwnerViewId t = view_Id view) (doc_tags s)). tag_covers v t)) \<and>
         (\<exists>s3. tag_elements_in_view h view elements s =
            tag_loop h ts (covered_ids h view s) view (length elements) 0 elements s3 \<and>
            doc_tags s3 = doc_tags s) \<and>
         r = Inr () \<and>
         create_calls (emitted s s') =
           filter (tag_candidate h ts (covered_ids h view s) view) elements \<and>
         (ts ''check_blank_tag'' = Some b \<and>
          (\<forall>e\<in>set elements. create_fails h (view_Id view) e = None \<and>
             \<not> (b \<and> blank h (created_TagText h (view_Id view) e))) \<longrightarrow>
            doc_tags s' = doc_tags s @ new_tags s s' \<and>
            tags_for view (filter (tag_candidate h ts (covered_ids h view s) view) elements)
              (new_tags s s'))"
proof -
  from assms(1) obtain v where v: "get_revit_version h = Inr v"
    and ts: "load_toggle_settings h (events s @ [Print (RunningOnVersion v)]) = Inr ts"
    by (auto simp: view_settings_def split: sum.splits)
  let ?s1 = "emit (Print (RunningOnVersion v)) s"
  let ?s2 = "emit LoadToggleSettings ?s1"
  let ?cand = "tag_candidate h ts (covered_ids h view s) view"
  obtain ids s3 where a: "already_tagged v (existing_tags view s) {} ?s2 = (ids, s3)"
    by (cases "already_tagged v (existing_tags view s) {} ?s2")
  have "ids = fst (already_tagged v (existing_tags view s) {} ?s2)" using a by simp
  also have "\<dots> = fst (already_tagged v (existing_tags view s) {} s)"
    by (rule already_tagged_state_indep)
  also have "\<dots> = covered_ids h view s" by (simp add: covered_ids_def v)
  finally have ids: "ids = covered_ids h view s" .
  from already_tagged_adds [OF a] obtain es1 where
    es1: "events s3 = events ?s2 @ es1" "\<forall>ev\<in>set es1. \<exists>m. ev = Print (ErrorProcessingTag m)"
    by (auto simp: adds_def)
  from es1(2) have c1: "create_calls es1 = []" by (induction es1) auto
  from already_tagged_frame [OF a] have ig: "ignored_tag_types s3 = ignored_tag_types s"
    and d3: "doc_tags s3 = doc_tags s" by simp_all
  have eq: "tag_elements_in_view h view elements s =
      tag_loop h ts (covered_ids h view s) view (length elements) 0 elements s3"
    using v ts a ids by (simp add: tag_elements_in_view_def Let_def)
  with assms(3) have l:
    "tag_loop h ts (covered_ids h view s) view (length elements) 0 elements s3 = (r, s')"
    by simp
  from assms(2) ig have ok3: "prompts_pass h s3 elements" by (simp add: prompts_pass_def)
  note lp = tag_loop_candidates [OF ok3 l, of b]
  from lp have r: "r = Inr ()" and ev3: "events s' = events s3 @ emitted s3 s'"
    and calls3: "create_calls (emitted s3 s') = filter ?cand elements" by blast+
  have "events s' = events s @
      (Print (RunningOnVersion v) # LoadToggleSettings # es1 @ emitted s3 s')"
    using ev3 es1(1) by simp
  then have "emitted s s' = Print (RunningOnVersion v) # LoadToggleSettings # es1 @ emitted s3 s'"
    by (rule emitted_append)
  with calls3 c1 have calls: "create_calls (emitted s s') = filter ?cand elements" by simp
  have cov: "\<forall>v. get_revit_version h = Inr v \<longrightarrow>
            covered_ids h view s =
              (\<Union>t\<in>set (filter (\<lambda>t. OwnerViewId t = view_Id view) (doc_tags s)). tag_covers v t)"
    using covered_ids_tags [of h _ view s] by (simp add: existing_tags_def)
  have tags: "ts ''check_blank_tag'' = Some b \<and>
          (\<forall>e\<in>set elements. create_fails h (view_Id view) e = None \<and>
             \<not> (b \<and> blank h (created_TagText h (view_Id view) e))) \<longrightarrow>
            doc_tags s' = doc_tags s @ new_tags s s' \<and>
            tags_for view (filter ?cand elements) (new_tags s s')"
  proof
    assume "ts ''check_blank_tag'' = Some b \<and>
          (\<forall>e\<in>set elements. create_fails h (view_Id view) e = None \<and>
             \<not> (b \<and> blank h (created_TagText h (view_Id view) e)))"
    with lp obtain new where new: "doc_tags s' = doc_tags s3 @ new"
      "tags_for view (filter ?cand elements) new" by blast
    from new(1) d3 have "doc_tags s' = doc_tags s @ new" by simp
    with new(2) new_tags_append [of s' s new]
    show "doc_tags s' = doc_tags s @ new_tags s s' \<and>
            tags_for view (filter ?cand elements) (new_tags s s')" by simp
  qed
  from eq d3 have "\<exists>s3. tag_elements_in_view h view elements s =
            tag_loop h ts (covered_ids h view s) view (length elements) 0 elements s3 \<and>
            doc_tags s3 = doc_tags s" by blast
  with cov r calls tags show ?thesis by blast
qed

lemma candidates_state1:
  "filter (tag_candidate host0 toggles_off {101} level1) [door1, door2, boxless, door2] =
     [door2, door2]"
  by (auto simp: tag_candidate_def skip_invisible_def get_projected_center_point_def
        windows_in_plan_def data_defs)

lemma candidates_state0:
  "filter (tag_candidate host0 toggles_off {} level1) [door1, boxless, door1] = [door1, door1]"
  by (auto simp: tag_candidate_def skip_invisible_def get_projected_center_point_def
        windows_in_plan_def data_defs)

theorem duplicates_tagged_again_witness:
  "view_settings host0 state1 = Inr toggles_off \<and>
   prompts_pass host0 state1 [door1, door2, boxless, door2] \<and>
   covered_ids host0 level1 state1 = {101} \<and>
   fst (tag_elements_in_view host0 level1 [door1, door2, boxless, door2] state1) = Inr () \<and>
   create_calls
     (emitted state1 (snd (tag_elements_in_view host0 level1 [door1, door2, boxless, door2] state1))) =
     [door2, door2] \<and>
   map GetTaggedLocalElements
     (doc_tags (snd (tag_elements_in_view host0 level1 [door1, door2, boxless, door2] state1))) =
     [Inr [101], Inr [102], Inr [102]] \<and>
   map OwnerViewId
     (doc_tags (snd (tag_elements_in_view host0 level1 [door1, door2, boxless, door2] state1))) =
     [1, 1, 1] \<and>
   map tag_Id
     (doc_tags (snd (tag_elements_in_view host0 level1 [door1, door2, boxless, door2] state1))) =
     [900, 1000, 1001] \<and>
   view_settings host0 state0 = Inr toggles_off \<and>
   prompts_pass host0 state0 [door1, boxless, door1] \<and>
   covered_ids host0 level1 state0 = {} \<and>
   fst (tag_elements_in_view host0 level1 [door1, boxless, door1] state0) = Inr () \<and>
   create_calls
     (emitted state0 (snd (tag_elements_in_view host0 level1 [door1, boxless, door1] state0))) =
     [door1, door1] \<and>
   map GetTaggedLocalElements
     (doc_tags (snd (tag_elements_in_view host0 level1 [door1, boxless, door1] state0))) =
     [Inr [101], Inr [101]]"
proof -
  let ?els = "[door1, door2, boxless, door2]"
  let ?run = "tag_elements_in_view host0 level1 ?els state1"
  have a: "view_settings host0 state1 = Inr toggles_off"
    by (simp add: view_settings_def get_revit_version_def host0_def)
  have ok: "prompts_pass host0 state1 ?els"
    by (simp add: prompts_pass_def host0_def)
  have r: "?run = (fst ?run, snd ?run)" by simp
  have v: "get_revit_version host0 = Inr 2024"
    by (simp add: get_revit_version_def host0_def)
  have bl: "toggles_off ''check_blank_tag'' = Some False \<and>
      (\<forall>e\<in>set ?els. create_fails host0 (view_Id level1) e = None \<and>
         \<not> (False \<and> blank host0 (created_TagText host0 (view_Id level1) e)))"
    by (simp add: toggles_off_def host0_def)
  note th = duplicates_tagged_again [OF a ok r, of False]
  from th v have "covered_ids host0 level1 state1 =
      (\<Union>t\<in>set (filter (\<lambda>t. OwnerViewId t = view_Id level1) (doc_tags state1)). tag_covers 2024 t)"
    by blast
  then have cov: "covered_ids host0 level1 state1 = {101}"
    by (simp add: state1_def state0_def tag0_def level1_def tag_covers_def)
  from th have r1: "fst ?run = Inr ()" by blast
  from th have "create_calls (emitted state1 (snd ?run)) =
      filter (tag_candidate host0 toggles_off (covered_ids host0 level1 state1) level1) ?els"
    by blast
  then have r2: "create_calls (emitted state1 (snd ?run)) = [door2, door2]"
    unfolding cov candidates_state1 .
  from th bl have "doc_tags (snd ?run) = doc_tags state1 @ new_tags state1 (snd ?run) \<and>
      tags_for level1
        (filter (tag_candidate host0 toggles_off (covered_ids host0 level1 state1) level1) ?els)
        (new_tags state1 (snd ?run))"
    by blast
  then have t: "doc_tags (snd ?run) = doc_tags state1 @ new_tags state1 (snd ?run)"
    "tags_for level1 [door2, door2] (new_tags state1 (snd ?run))"
    unfolding cov candidates_state1 by simp_all
  from t(2) have n: "map GetTaggedLocalElements (new_tags state1 (snd ?run)) = [Inr [102], Inr [102]]"
    "map OwnerViewId (new_tags state1 (snd ?run)) = [1, 1]"
    by (simp_all add: tags_for_def door2_def level1_def)
  have r3: "map GetTaggedLocalElements (doc_tags (snd ?run)) = [Inr [101], Inr [102], Inr [102]]"
    unfolding t(1) using n(1) by (simp add: state1_def state0_def tag0_def)
  have r4: "map OwnerViewId (doc_tags (snd ?run)) = [1, 1, 1]"
    unfolding t(1) using n(2) by (simp add: state1_def state0_def tag0_def)
  let ?elz = "[door1, boxless, door1]"
  let ?ruz = "tag_elements_in_view host0 level1 ?elz state0"
  have a0: "view_settings host0 state0 = Inr toggles_off"
    by (simp add: view_settings_def get_revit_version_def host0_def)
  have ok0: "prompts_pass host0 state0 ?elz"
    by (simp add: prompts_pass_def host0_def)
  have q: "?ruz = (fst ?ruz, snd ?ruz)" by simp
  have bl0: "toggles_off ''check_blank_tag'' = Some False \<and>
      (\<forall>e\<in>set ?elz. create_fails host0 (view_Id level1) e = None \<and>
         \<not> (False \<and> blank host0 (created_TagText host0 (view_Id level1) e)))"
    by (simp add: toggles_off_def host0_def)
  note th0 = duplicates_tagged_again [OF a0 ok0 q, of False]
  from th0 v have "covered_ids host0 level1 state0 =
      (\<Union>t\<in>set (filter (\<lambda>t. OwnerViewId t = view_Id level1) (doc_tags state0)). tag_covers 2024 t)"
    by blast
  then have cov0: "covered_ids host0 level1 state0 = {}"
    by (simp add: state0_def)
  from th0 have q1: "fst ?ruz = Inr ()" by blast
  from th0 have "create_calls (emitted state0 (snd ?ruz)) =
      filter (tag_candidate host0 toggles_off (covered_ids host0 level1 state0) level1) ?elz"
    by blast
  then have q2: "create_calls (emitted state0 (snd ?ruz)) = [door1, door1]"
    unfolding cov0 candidates_state0 .
  from th0 bl0 have "doc_tags (snd ?ruz) = doc_tags state0 @ new_tags state0 (snd ?ruz) \<and>
      tags_for level1
        (filter (tag_candidate host0 toggles_off (covered_ids host0 level1 state0) level1) ?elz)
        (new_tags state0 (snd ?ruz))"
    by blast
  then have t0: "doc_tags (snd ?ruz) = doc_tags state0 @ new_tags state0 (snd ?ruz)"
    "tags_for level1 [door1, door1] (new_tags state0 (snd ?ruz))"
    unfolding cov0 candidates_state0 by simp_all
  from t0(2) have "map GetTaggedLocalElements (new_tags state0 (snd ?ruz)) = [Inr [101], Inr [101]]"
    by (simp add: tags_for_def door1_def)
  then have q3: "map GetTaggedLocalElements (doc_tags (snd ?ruz)) = [Inr [101], Inr [101]]"
    unfolding t0(1) by (simp add: state0_def)
  have r5: "map tag_Id (doc_tags (snd ?run)) = [900, 1000, 1001]"
    by (simp add: view_defs step_defs data_defs emit_def Let_def)
  from a ok cov r1 r2 r3 r4 r5 a0 ok0 cov0 q1 q2 q3 show ?thesis by blast
qed

section \<open>Blank tags\<close>

text \<open>
  Claim C7. When a creation succeeds, the blank-tag check is on and the label of the new
  tag is blank (empty or whitespace only, that is, empty after \<^verbatim>\<open>strip\<close>), the deletion of
  the new tag is called right after the creation, and, the host not refusing, no tag with
  its identifier remains; when the check is off or the label is not blank, nothing is
  deleted and the new tag is the last tag of the document. For a whole call of the tagger:
  with the check on and no deletion refused, no tag that is new after the call has a blank
  label; with the check off, the call deletes nothing and loses no tag.
\<close>

theorem blank_tag_deleted:
  "(get_projected_center_point h e = Inr (Some p) \<and> windows_in_plan ts view e = Inr l \<and>
    create_fails h (view_Id view) e = None \<longrightarrow>
      (ts ''check_blank_tag'' = Some True \<and> blank h (created_TagText h (view_Id view) e) \<and>
       delete_fails h (next_id s) = None \<longrightarrow>
         emitted s (snd (place_tag h ts view e s)) =
           [Create (view_Id view) e l TM_ADDBY_CATEGORY Horizontal p, Delete (next_id s)] \<and>
         (\<forall>t\<in>set (doc_tags (snd (place_tag h ts view e s))). tag_Id t \<noteq> next_id s)) \<and>
      (ts ''check_blank_tag'' = Some b \<and> \<not> (b \<and> blank h (created_TagText h (view_Id view) e)) \<longrightarrow>
         emitted s (snd (place_tag h ts view e s)) =
           [Create (view_Id view) e l TM_ADDBY_CATEGORY Horizontal p] \<and>
         doc_tags (snd (place_tag h ts view e s)) =
           doc_tags s @ [created_tag h (view_Id view) e l p (next_id s)])) \<and>
   (view_settings h s = Inr ts' \<and> ts' ''check_blank_tag'' = Some True \<and>
    (\<forall>i. delete_fails h i = None) \<longrightarrow>
      (\<forall>t\<in>set (doc_tags (snd (tag_elements_in_view h view els s))).
         t \<in> set (doc_tags s) \<or> \<not> blank h (TagText t))) \<and>
   (view_settings h s = Inr ts' \<and> ts' ''check_blank_tag'' = Some False \<longrightarrow>
      (\<forall>i. Delete i \<notin> set (emitted s (snd (tag_elements_in_view h view els s)))) \<and>
      set (doc_tags s) \<subseteq> set (doc_tags (snd (tag_elements_in_view h view els s)))) \<and>
   (blank h text \<longleftrightarrow> strip h text = [])"
proof -
  obtain r s' where run: "tag_elements_in_view h view els s = (r, s')"
    by (cases "tag_elements_in_view h view els s")
  have step: "get_projected_center_point h e = Inr (Some p) \<and> windows_in_plan ts view e = Inr l \<and>
    create_fails h (view_Id view) e = None \<longrightarrow>
      (ts ''check_blank_tag'' = Some True \<and> blank h (created_TagText h (view_Id view) e) \<and>
       delete_fails h (next_id s) = None \<longrightarrow>
         emitted s (snd (place_tag h ts view e s)) =
           [Create (view_Id view) e l TM_ADDBY_CATEGORY Horizontal p, Delete (next_id s)] \<and>
         (\<forall>t\<in>set (doc_tags (snd (place_tag h ts view e s))). tag_Id t \<noteq> next_id s)) \<and>
      (ts ''check_blank_tag'' = Some b \<and> \<not> (b \<and> blank h (created_TagText h (view_Id view) e)) \<longrightarrow>
         emitted s (snd (place_tag h ts view e s)) =
           [Create (view_Id view) e l TM_ADDBY_CATEGORY Horizontal p] \<and>
         doc_tags (snd (place_tag h ts view e s)) =
           doc_tags s @ [created_tag h (view_Id view) e l p (next_id s)])"
    by (auto simp: place_tag_deletes place_tag_keeps emitted_def)
  have tog_on: "view_settings h s = Inr ts' \<and> ts' ''check_blank_tag'' = Some True \<and>
    (\<forall>i. delete_fails h i = None) \<longrightarrow>
      (\<forall>t\<in>set (doc_tags (snd (tag_elements_in_view h view els s))).
         t \<in> set (doc_tags s) \<or> \<not> blank h (TagText t))"
  proof (intro impI, elim conjE)
    assume a: "view_settings h s = Inr ts'" "ts' ''check_blank_tag'' = Some True"
      "\<forall>i. delete_fails h i = None"
    from tag_elements_in_view_blank_rule [OF a(1) run] a(2,3) run
    show "\<forall>t\<in>set (doc_tags (snd (tag_elements_in_view h view els s))).
         t \<in> set (doc_tags s) \<or> \<not> blank h (TagText t)"
      by (simp add: blank_rule_def)
  qed
  have tog_off: "view_settings h s = Inr ts' \<and> ts' ''check_blank_tag'' = Some False \<longrightarrow>
      (\<forall>i. Delete i \<notin> set (emitted s (snd (tag_elements_in_view h view els s)))) \<and>
      set (doc_tags s) \<subseteq> set (doc_tags (snd (tag_elements_in_view h view els s)))"
  proof (intro impI, elim conjE)
    assume a: "view_settings h s = Inr ts'" "ts' ''check_blank_tag'' = Some False"
    from tag_elements_in_view_blank_rule [OF a(1) run] a(2)
    have ad: "adds s s' no_delete" and sub: "set (doc_tags s) \<subseteq> set (doc_tags s')"
      by (simp_all add: blank_rule_def)
    from adds_emitted(2) [OF ad] have "\<forall>i. Delete i \<notin> set (emitted s s')"
      by (auto simp: no_delete_def)
    with sub run
    show "(\<forall>i. Delete i \<notin> set (emitted s (snd (tag_elements_in_view h view els s)))) \<and>
      set (doc_tags s) \<subseteq> set (doc_tags (snd (tag_elements_in_view h view els s)))"
      by simp
  qed
  from step tog_on tog_off strip_empty [of h "text"] show ?thesis by blast
qed

theorem blank_tag_deleted_witness:
  "get_projected_center_point host_blank door1 = Inr (Some p0) \<and>
   windows_in_plan toggles_on level1 door1 = Inr False \<and>
   create_fails host_blank (view_Id level1) door1 = None \<and>
   toggles_on ''check_blank_tag'' = Some True \<and>
   blank host_blank (created_TagText host_blank (view_Id level1) door1) \<and>
   (\<forall>i. delete_fails host_blank i = None) \<and>
   emitted state0 (snd (place_tag host_blank toggles_on level1 door1 state0)) =
     [Create (view_Id level1) door1 False TM_ADDBY_CATEGORY Horizontal p0, Delete (next_id state0)] \<and>
   get_projected_center_point host1 window1 = Inr (Some p0) \<and>
   windows_in_plan toggles_on level1 window1 = Inr True \<and>
   create_fails host1 (view_Id level1) window1 = None \<and>
   \<not> blank host1 (created_TagText host1 (view_Id level1) window1) \<and>
   doc_tags (snd (place_tag host1 toggles_on level1 window1 state0)) =
     doc_tags state0 @ [created_tag host1 (view_Id level1) window1 True p0 (next_id state0)] \<and>
   view_settings host_blank state0 = Inr toggles_on \<and>
   created_tag host_blank (view_Id level1) door1 False p0 (next_id state0)
     \<notin> set (doc_tags (snd (tag_elements_in_view host_blank level1 [door1] state0))) \<and>
   view_settings host0 state0 = Inr toggles_off \<and>
   toggles_off ''check_blank_tag'' = Some False \<and>
   Delete 1000 \<notin> set (emitted state0 (snd (tag_elements_in_view host0 level1 [door1] state0)))"
proof -
  have a1: "get_projected_center_point host_blank door1 = Inr (Some p0)"
    by (simp add: get_projected_center_point_def host_blank_def host0_def door1_def box0_def p0_def
          double_simps)
  have a2: "windows_in_plan toggles_on level1 door1 = Inr False"
    by (simp add: windows_in_plan_def door1_def doors_def)
  have a3: "create_fails host_blank (view_Id level1) door1 = None"
    by (simp add: host_blank_def host0_def)
  have a4: "toggles_on ''check_blank_tag'' = Some True"
    by (simp add: toggles_on_def)
  have a5: "blank host_blank (created_TagText host_blank (view_Id level1) door1)"
    by (simp add: blank_def host_blank_def host0_def)
  have a6: "\<forall>i. delete_fails host_blank i = None"
    by (simp add: host_blank_def host0_def)
  have b1: "get_projected_center_point host1 window1 = Inr (Some p0)"
    by (simp add: get_projected_center_point_def host1_def host0_def window1_def box0_def p0_def
          double_simps)
  have b2: "windows_in_plan toggles_on level1 window1 = Inr True"
    by (simp add: windows_in_plan_def window1_def windows_def level1_def toggles_on_def)
  have b3: "create_fails host1 (view_Id level1) window1 = None"
    by (simp add: host1_def host0_def)
  have b5: "\<not> blank host1 (created_TagText host1 (view_Id level1) window1)"
    by (simp add: blank_def host1_def host0_def)
  have c1: "view_settings host_blank state0 = Inr toggles_on"
    by (simp add: view_settings_def get_revit_version_def host_blank_def host0_def)
  have d1: "view_settings host0 state0 = Inr toggles_off"
    by (simp add: view_settings_def get_revit_version_def host0_def)
  have d2: "toggles_off ''check_blank_tag'' = Some False"
    by (simp add: toggles_off_def)
  have r1: "emitted state0 (snd (place_tag host_blank toggles_on level1 door1 state0)) =
     [Create (view_Id level1) door1 False TM_ADDBY_CATEGORY Horizontal p0, Delete (next_id state0)]"
    using a1 a2 a3 a4 a5 a6
      blank_tag_deleted [where h = host_blank and ts = toggles_on and view = level1 and e = door1
        and p = p0 and l = False and s = state0]
    by blast
  have r2: "doc_tags (snd (place_tag host1 toggles_on level1 window1 state0)) =
     doc_tags state0 @ [created_tag host1 (view_Id level1) window1 True p0 (next_id state0)]"
    using b1 b2 b3 a4 b5
      blank_tag_deleted [where h = host1 and ts = toggles_on and view = level1 and e = window1
        and p = p0 and l = True and s = state0 and b = True]
    by blast
  have "\<forall>t\<in>set (doc_tags (snd (tag_elements_in_view host_blank level1 [door1] state0))).
         t \<in> set (doc_tags state0) \<or> \<not> blank host_blank (TagText t)"
    using c1 a4 a6
      blank_tag_deleted [where h = host_blank and s = state0 and ts' = toggles_on and view = level1
        and els = "[door1]"]
    by blast
  moreover have "created_tag host_blank (view_Id level1) door1 False p0 (next_id state0)
      \<notin> set (doc_tags state0)" by (simp add: state0_def)
  moreover have "blank host_blank
      (TagText (created_tag host_blank (view_Id level1) door1 False p0 (next_id state0)))"
    using a5 by (simp add: created_tag_def)
  ultimately have r3: "created_tag host_blank (view_Id level1) door1 False p0 (next_id state0)
     \<notin> set (doc_tags (snd (tag_elements_in_view host_blank level1 [door1] state0)))"
    by blast
  have r4: "Delete 1000 \<notin> set (emitted state0 (snd (tag_elements_in_view host0 level1 [door1] state0)))"
    using d1 d2
      blank_tag_deleted [where h = host0 and s = state0 and ts' = toggles_off and view = level1
        and els = "[door1]"]
    by blast
  from a1 a2 a3 a4 a5 a6 b1 b2 b3 b5 c1 d1 d2 r1 r2 r3 r4 show ?thesis by blast
qed

section \<open>One transaction for the run\<close>

text \<open>
  Claim C3, as amended. The run starts one transaction before the first view and makes
  no other call on it until the views are done: every creation and deletion lies between
  the start and the end of that transaction. The run ends as the processing of the views
  ends: when every view returns, the transaction is committed; when an exception of class
  \<^verbatim>\<open>Exception\<close> escapes, the transaction is rolled back and the document has the tags it
  had before the run.
\<close>

theorem one_transaction_per_run:
  assumes "tag_elements_in_selected_views h views els s = (r, s')"
  shows "r = fst (tag_views h views els (Transaction_Start s)) \<and>
     (\<exists>body. (\<forall>ev\<in>set body. no_tx ev) \<and>
        (r = Inr () \<longrightarrow> emitted s s' = TxStart # body @ [TxCommit] \<and> tx s' = Committed) \<and>
        (\<forall>m. r = Inl (Exception m) \<longrightarrow>
           emitted s s' = TxStart # body @ [TxRollBack] \<and> tx s' = RolledBack \<and>
           doc_tags s' = doc_tags s))"
proof -
  obtain r1 s1 where tv: "tag_views h views els (Transaction_Start s) = (r1, s1)"
    by (cases "tag_views h views els (Transaction_Start s)")
  from tag_views_from_start [OF tv] obtain body where
    t1: "tx s1 = Started (doc_tags s)"
    and ev: "events s1 = events s @ TxStart # body"
    and body: "\<forall>ev\<in>set body. no_tx ev" by blast
  have r: "r = r1"
    using assms tv by (auto simp: tag_elements_in_selected_views_def split: sum.splits exc.splits)
  have c: "r = Inr () \<longrightarrow> emitted s s' = TxStart # body @ [TxCommit] \<and> tx s' = Committed"
  proof
    assume "r = Inr ()"
    with r assms tv have "s' = Transaction_Commit s1"
      by (auto simp: tag_elements_in_selected_views_def)
    then have "events s' = events s @ (TxStart # body @ [TxCommit])" "tx s' = Committed"
      using ev by (simp_all add: Transaction_Commit_def)
    then show "emitted s s' = TxStart # body @ [TxCommit] \<and> tx s' = Committed"
      by (simp add: emitted_append)
  qed
  have b: "\<forall>m. r = Inl (Exception m) \<longrightarrow>
           emitted s s' = TxStart # body @ [TxRollBack] \<and> tx s' = RolledBack \<and>
           doc_tags s' = doc_tags s"
  proof (intro allI impI)
    fix m assume "r = Inl (Exception m)"
    with r assms tv have "s' = Transaction_RollBack s1"
      by (auto simp: tag_elements_in_selected_views_def)
    then have "events s' = events s @ (TxStart # body @ [TxRollBack])" "tx s' = RolledBack"
      "doc_tags s' = doc_tags s"
      using ev t1 by (simp_all add: Transaction_RollBack_def)
    then show "emitted s s' = TxStart # body @ [TxRollBack] \<and> tx s' = RolledBack \<and>
           doc_tags s' = doc_tags s"
      by (simp add: emitted_append)
  qed
  from r tv body c b show ?thesis by auto
qed

theorem one_transaction_per_run_witness:
  "tag_elements_in_selected_views host0 [level1, level2] [door1] state0 =
     (Inr (), snd (tag_elements_in_selected_views host0 [level1, level2] [door1] state0)) \<and>
   tx (snd (tag_elements_in_selected_views host0 [level1, level2] [door1] state0)) = Committed \<and>
   tag_elements_in_selected_views host_cfg_fail [level1, level2] [door1] state0 =
     (Inl (Exception ''settings unreadable''),
      snd (tag_elements_in_selected_views host_cfg_fail [level1, level2] [door1] state0)) \<and>
   tx (snd (tag_elements_in_selected_views host_cfg_fail [level1, level2] [door1] state0)) = RolledBack \<and>
   doc_tags (snd (tag_elements_in_selected_views host_cfg_fail [level1, level2] [door1] state0)) =
     doc_tags state0"
proof -
  have a: "tag_elements_in_selected_views host0 [level1, level2] [door1] state0 =
     (Inr (), snd (tag_elements_in_selected_views host0 [level1, level2] [door1] state0))"
    by (simp add: run_two_views)
  have b: "tag_elements_in_selected_views host_cfg_fail [level1, level2] [door1] state0 =
     (Inl (Exception ''settings unreadable''),
      snd (tag_elements_in_selected_views host_cfg_fail [level1, level2] [door1] state0))"
    by (simp add: run_cfg_fail)
  from a b one_transaction_per_run [OF a] one_transaction_per_run [OF b] show ?thesis by blast
qed

text \<open>
  The claim as it stands fails for an exception that is not of class \<^verbatim>\<open>Exception\<close>.
  Here the first element is tagged, the prompt for the second raises \<^verbatim>\<open>SystemExit\<close>, and
  the run ends with the exception, with the transaction neither committed nor rolled back
  and the new tag still in the document.
\<close>

theorem exit_leaves_transaction_open:
  "tag_elements_in_selected_views host_exit [level1] [door1, window1] state0 =
    (Inl SystemExit,
     state0\<lparr>doc_tags := [created_tag host_exit 1 door1 False p0 1000],
       next_id := 1001, tx := Started [],
       events := [TxStart, Print (RunningOnVersion 2024), LoadToggleSettings, UpdateProgress 0 2,
                  Create 1 door1 False TM_ADDBY_CATEGORY Horizontal p0,
                  UpdateProgress 1 2, Alert windows]\<rparr>)"
  by (simp add: run_defs view_defs step_defs host_exit_def data_defs p0_def created_tag_def
        emit_def Let_def)

section \<open>The toggle settings\<close>

text \<open>
  Claim C4, as amended. Every call of the tagger loads the toggle settings once, right
  after it has printed the host version and before it reads the tags and the elements of
  its view; the settings of that load govern every element of that view. A run that
  returns normally has loaded the settings once for each selected view.
\<close>

theorem settings_loaded_per_view:
  "(tag_elements_in_view h view els s = (r, s') \<and> get_revit_version h = Inr v \<longrightarrow>
      (\<exists>es. emitted s s' = Print (RunningOnVersion v) # LoadToggleSettings # es \<and>
            load_count es = 0)) \<and>
   (view_settings h s = Inr ts \<and> get_revit_version h = Inr v \<longrightarrow>
      tag_elements_in_view h view els s =
        tag_loop h ts (covered_ids h view s) view (length els) 0 els
          (snd (already_tagged v (existing_tags view s) {}
                  (emit LoadToggleSettings (emit (Print (RunningOnVersion v)) s))))) \<and>
   (tag_elements_in_selected_views h views els s = (Inr (), s2) \<longrightarrow>
      load_count (emitted s s2) = length views)"
proof (intro conjI impI)
  assume "tag_elements_in_view h view els s = (r, s') \<and> get_revit_version h = Inr v"
  then have run: "tag_elements_in_view h view els s = (r, s')"
    and v: "get_revit_version h = Inr v" by simp_all
  from tag_elements_in_view_trace [OF run] v obtain es where
    es: "events s' = events s @ Print (RunningOnVersion v) # LoadToggleSettings # es"
        "\<forall>ev\<in>set es. after_load ev" by auto
  from es(1) have "emitted s s' = Print (RunningOnVersion v) # LoadToggleSettings # es"
    by (rule emitted_append)
  moreover from es(2) have "load_count es = 0" by (rule after_load_count)
  ultimately show "\<exists>es. emitted s s' = Print (RunningOnVersion v) # LoadToggleSettings # es \<and>
            load_count es = 0" by blast
next
  assume "view_settings h s = Inr ts \<and> get_revit_version h = Inr v"
  then have ts: "load_toggle_settings h (events s @ [Print (RunningOnVersion v)]) = Inr ts"
    and v: "get_revit_version h = Inr v" by (auto simp: view_settings_def)
  let ?s2 = "emit LoadToggleSettings (emit (Print (RunningOnVersion v)) s)"
  have "fst (already_tagged v (existing_tags view s) {} ?s2) = covered_ids h view s"
    using already_tagged_state_indep [of v "existing_tags view s" "{}" ?s2 s] v
    by (simp add: covered_ids_def)
  with ts v show "tag_elements_in_view h view els s =
        tag_loop h ts (covered_ids h view s) view (length els) 0 els
          (snd (already_tagged v (existing_tags view s) {} ?s2))"
    by (auto simp: tag_elements_in_view_def Let_def split: prod.splits)
next
  assume run: "tag_elements_in_selected_views h views els s = (Inr (), s2)"
  obtain r1 s1 where tv: "tag_views h views els (Transaction_Start s) = (r1, s1)"
    by (cases "tag_views h views els (Transaction_Start s)")
  from run tv obtain u where r1: "r1 = Inr u" and s2: "s2 = Transaction_Commit s1"
    by (auto simp: tag_elements_in_selected_views_def split: sum.splits exc.splits)
  from tag_views_loads [OF tv [unfolded r1]]
  have a: "events s1 = events (Transaction_Start s) @ emitted (Transaction_Start s) s1"
    "load_count (emitted (Transaction_Start s) s1) = length views" by simp_all
  have "events s2 = events s @ (TxStart # emitted (Transaction_Start s) s1 @ [TxCommit])"
    unfolding s2 using a(1) by (simp add: Transaction_Commit_def Transaction_Start_def)
  then have "emitted s s2 = TxStart # emitted (Transaction_Start s) s1 @ [TxCommit]"
    by (rule emitted_append)
  with a(2) show "load_count (emitted s s2) = length views" by simp
qed

theorem settings_loaded_per_view_witness:
  "get_revit_version host0 = Inr 2024 \<and>
   view_settings host0 state0 = Inr toggles_off \<and>
   tag_elements_in_selected_views host0 [level1, level2] [door1] state0 =
     (Inr (), snd (tag_elements_in_selected_views host0 [level1, level2] [door1] state0)) \<and>
   load_count (emitted state0
      (snd (tag_elements_in_selected_views host0 [level1, level2] [door1] state0))) =
     length [level1, level2] \<and>
   (\<exists>es. emitted state0 (snd (tag_elements_in_view host0 level1 [door1] state0)) =
        Print (RunningOnVersion 2024) # LoadToggleSettings # es \<and> load_count es = 0)"
proof -
  have v: "get_revit_version host0 = Inr 2024"
    by (simp add: get_revit_version_def host0_def)
  have ts: "view_settings host0 state0 = Inr toggles_off"
    by (simp add: view_settings_def get_revit_version_def host0_def)
  have a: "tag_elements_in_selected_views host0 [level1, level2] [door1] state0 =
     (Inr (), snd (tag_elements_in_selected_views host0 [level1, level2] [door1] state0))"
    by (simp add: run_two_views)
  have r: "tag_elements_in_view host0 level1 [door1] state0 =
      (fst (tag_elements_in_view host0 level1 [door1] state0),
       snd (tag_elements_in_view host0 level1 [door1] state0))"
    by simp
  from v ts a r
    settings_loaded_per_view [where h = host0 and s = state0 and views = "[level1, level2]"
      and els = "[door1]" and view = level1 and v = 2024 and ts = toggles_off
      and r = "fst (tag_elements_in_view host0 level1 [door1] state0)"
      and s' = "snd (tag_elements_in_view host0 level1 [door1] state0)"
      and ?s2.0 = "snd (tag_elements_in_selected_views host0 [level1, level2] [door1] state0)"]
  show ?thesis by blast
qed

text \<open>
  The claim as it stands fails: with two views the settings are loaded twice, and when
  they change in between, the two views are tagged under different settings (here the
  window gets no leader in the first view and a leader in the second).
\<close>

theorem settings_loaded_for_each_view:
  "tag_elements_in_selected_views host_change [level1, level2] [window1] state0 =
    (Inr (),
     state0\<lparr>doc_tags := [created_tag host_change 1 window1 False p0 1000,
                          created_tag host_change 2 window1 True p0 1001],
       next_id := 1002, tx := Committed,
       events := [TxStart, Print (RunningOnVersion 2024), LoadToggleSettings, UpdateProgress 0 1,
                  Create 1 window1 False TM_ADDBY_CATEGORY Horizontal p0,
                  Print (RunningOnVersion 2024), LoadToggleSettings, UpdateProgress 0 1,
                  Create 2 window1 True TM_ADDBY_CATEGORY Horizontal p0, TxCommit]\<rparr>) \<and>
   load_count [TxStart, Print (RunningOnVersion 2024), LoadToggleSettings, UpdateProgress 0 1,
                  Create 1 window1 False TM_ADDBY_CATEGORY Horizontal p0,
                  Print (RunningOnVersion 2024), LoadToggleSettings, UpdateProgress 0 1,
                  Create 2 window1 True TM_ADDBY_CATEGORY Horizontal p0, TxCommit] = 2"
  by (simp add: run_defs view_defs step_defs host_change_def host1_def data_defs p0_def
        created_tag_def emit_def Let_def)

section \<open>Cancelled selections\<close>

text \<open>
  Claim C6. When the user cancels the selection of categories, the script ends with
  nothing done but the dialog itself. When the user cancels the selection of views after
  the categories are selected and the elements collected, the script ends right after that
  dialog: the tags of the document and the transaction are as before the run, and the
  trace has only the dialogs and the lines of the selections, so no transaction call, no
  tag creation and no error line.
\<close>

theorem cancelled_selection_is_silent:
  "(load_configs h = Inr cfg \<and>
    (\<forall>names. SelectFromList_show h (events s) ''Select Categories to Tag'' names = Inr None) \<longrightarrow>
      (\<exists>names. script h s = emit (SelectFromList ''Select Categories to Tag'' names) s)) \<and>
   (select_categories h s = (Inr cats, s1) \<and> select_elements h cats s1 = (Inr els, s2) \<and>
    (\<forall>names. SelectFromList_show h (events s2) ''Select Views'' names = Inr None) \<longrightarrow>
      (\<exists>names. script h s = emit (SelectFromList ''Select Views'' names) s2) \<and>
      doc_tags (script h s) = doc_tags s \<and> tx (script h s) = tx s \<and>
      (\<forall>ev\<in>set (emitted s (script h s)). selection_trace ev))"
proof (intro conjI impI)
  assume "load_configs h = Inr cfg \<and>
    (\<forall>names. SelectFromList_show h (events s) ''Select Categories to Tag'' names = Inr None)"
  then show "\<exists>names. script h s = emit (SelectFromList ''Select Categories to Tag'' names) s"
    by (auto simp: script_def select_categories_def Let_def)
next
  assume a: "select_categories h s = (Inr cats, s1) \<and> select_elements h cats s1 = (Inr els, s2) \<and>
    (\<forall>names. SelectFromList_show h (events s2) ''Select Views'' names = Inr None)"
  then have sc: "select_categories h s = (Inr cats, s1)"
    and se: "select_elements h cats s1 = (Inr els, s2)"
    and cancel: "\<forall>names. SelectFromList_show h (events s2) ''Select Views'' names = Inr None"
    by simp_all
  from cancel obtain names where sv:
    "select_views h s2 = (Inl SystemExit, emit (SelectFromList ''Select Views'' names) s2)"
    by (auto simp: select_views_def Let_def)
  with sc se have sc_eq: "script h s = emit (SelectFromList ''Select Views'' names) s2"
    by (simp add: script_def)
  then show "\<exists>names. script h s = emit (SelectFromList ''Select Views'' names) s2" by blast
  from select_categories_ok [OF sc] select_elements_ok [OF se]
  have f: "doc_tags s2 = doc_tags s" "tx s2 = tx s" "adds s s2 selection_trace"
    by (auto intro: adds_trans)
  from f show "doc_tags (script h s) = doc_tags s" "tx (script h s) = tx s"
    by (simp_all add: sc_eq)
  have "adds s2 (emit (SelectFromList ''Select Views'' names) s2) selection_trace"
    by (rule adds_emit) simp
  with f(3) have "adds s (script h s) selection_trace"
    unfolding sc_eq by (rule adds_trans)
  from adds_emitted(2) [OF this]
  show "\<forall>ev\<in>set (emitted s (script h s)). selection_trace ev" .
qed

theorem cancelled_selection_is_silent_witness:
  "load_configs host_cancel = Inr [''Doors'', ''Windows''] \<and>
   (\<forall>names. SelectFromList_show host_cancel (events state0) ''Select Categories to Tag'' names
      = Inr None) \<and>
   (\<exists>names. script host_cancel state0 =
      emit (SelectFromList ''Select Categories to Tag'' names) state0) \<and>
   fst (select_categories host_cancel_views state0) = Inr [doors] \<and>
   doc_tags (script host_cancel_views state0) = doc_tags state0 \<and>
   tx (script host_cancel_views state0) = tx state0"
proof -
  have a: "load_configs host_cancel = Inr [''Doors'', ''Windows'']"
    by (simp add: host_cancel_def host0_def)
  have b: "\<forall>names. SelectFromList_show host_cancel (events state0) ''Select Categories to Tag'' names
      = Inr None"
    by (simp add: host_cancel_def host0_def)
  have c: "\<forall>names. SelectFromList_show host_cancel_views
      (events (state0\<lparr>element_cache := [23 \<mapsto> [door1, door2, boxless]],
             events := [SelectFromList ''Select Categories to Tag'' [''Doors'', ''Windows''],
                        Print (SelectedCategories [''Doors'']),
                        Print (CollectedElements ''Doors'' [101, 102, 103])]\<rparr>))
      ''Select Views'' names = Inr None"
    by (simp add: host_cancel_views_def host0_def)
  from a b
    cancelled_selection_is_silent [where h = host_cancel and s = state0
      and cfg = "[''Doors'', ''Windows'']"]
  have r1: "\<exists>names. script host_cancel state0 =
      emit (SelectFromList ''Select Categories to Tag'' names) state0" by blast
  from cancel_views_categories cancel_views_elements c
    cancelled_selection_is_silent [where h = host_cancel_views and s = state0
      and cats = "[doors]" and els = "[door1, door2, boxless]"
      and ?s1.0 = "state0\<lparr>events := [SelectFromList ''Select Categories to Tag'' [''Doors'', ''Windows''],
                          Print (SelectedCategories [''Doors''])]\<rparr>"
      and ?s2.0 = "state0\<lparr>element_cache := [23 \<mapsto> [door1, door2, boxless]],
             events := [SelectFromList ''Select Categories to Tag'' [''Doors'', ''Windows''],
                        Print (SelectedCategories [''Doors'']),
                        Print (CollectedElements ''Doors'' [101, 102, 103])]\<rparr>"]
  have r2: "doc_tags (script host_cancel_views state0) = doc_tags state0 \<and>
   tx (script host_cancel_views state0) = tx state0" by blast
  from a b r1 r2 cancel_views_categories show ?thesis by simp
qed

section \<open>The prompt for a category without tag type\<close>



end
